theory Spec2Isabelle
  imports Complex_Main "HOL-Library.Word"
begin

section \<open>The velocity-Verlet integrator with Nose-Hoover chains\<close>

text \<open>
  A shallow embedding of \<^verbatim>\<open>VVIntegrator\<close> (openmmapi/src/VVIntegrator.cpp) and of the
  degree-of-freedom accounting of \<^verbatim>\<open>CudaModifyDrudeNoseKernel::initialize\<close>
  (platforms/cuda/src/CudaVVKernels.cpp).

  Conventions of the embedding.
  \<^item> A C++ \<^verbatim>\<open>double\<close> is read in two ways. In the first embedding it is a \<^typ>\<open>real\<close>: the
    model computes with the exact value and has no rounding, no infinity and no NaN. A
    division whose divisor is zero yields an infinity or a NaN in C++; such a value is
    outside this reading, and the modelled run ends there with the error \<open>DivisionByZero\<close>.
    The second embedding (the same code over doubles with infinities and NaN) has these
    values, and there the run goes on as it does in C++; the properties of runs that meet a
    zero mass, an overflow or a NaN are stated over it.
  \<^item> A thrown \<^verbatim>\<open>OpenMMException\<close> is the error \<open>OpenMMException\<close> with its message; a
    failed \<^verbatim>\<open>ASSERT_VALID_INDEX\<close> is \<open>AssertionFailure\<close>.
  \<^item> \<^verbatim>\<open>std::vector::operator[]\<close> is unchecked: an access outside the vector is undefined
    behaviour, reported as \<open>UndefinedBehaviour\<close>.
  \<^item> A pointer is an optional address (\<open>None\<close> is \<^verbatim>\<open>NULL\<close>).
  \<^item> Particle and residue ids are C++ \<^verbatim>\<open>int\<close>s on which no arithmetic is done; they are
    modelled as \<^typ>\<open>int\<close>. Where a \<^verbatim>\<open>size_t\<close> is returned as an \<^verbatim>\<open>int\<close> the conversion is
    written out on 32 bits.
\<close>

datatype error =
    OpenMMException string
  | AssertionFailure
  | UndefinedBehaviour
  | DivisionByZero

text \<open>
  The exceptions of \<^verbatim>\<open>VVIntegrator\<close>, each with the message the code throws it with, under
  the names of the spec's error taxonomy. The spec's \<open>ConfigurationConflict\<close> covers three
  messages.
\<close>

definition BindingConflict :: error where
  "BindingConflict = OpenMMException ''This Integrator is already bound to a context''"

definition MultipleForceDefinition :: error where
  "MultipleForceDefinition = OpenMMException ''The System contains multiple DrudeForces''"

definition COMWithoutDrude :: error where
  "COMWithoutDrude =
     OpenMMException ''Should not use COM temperature group for non-Drude model''"

definition NHLangevinConflict :: error where
  "NHLangevinConflict =
     OpenMMException ''NH and Langevin thermostat cannot be applied on the same molecule''"

definition LangevinPerturbationConflict :: error where
  "LangevinPerturbationConflict =
     OpenMMException
       ''Langevin thermostat and periodic perturbation shouldn't be used together''"

definition UnboundUsage :: error where
  "UnboundUsage = OpenMMException ''This Integrator is not bound to a context!''"

datatype kernel =
    IntegrateVVStepKernel
  | ModifyDrudeNoseKernel
  | ModifyDrudeLangevinKernel
  | ModifyImageChargeKernel
  | ModifyElectricFieldKernel
  | ModifyPeriodicPerturbationKernel

subsection \<open>The integrator object\<close>

text \<open>
  The members of \<^verbatim>\<open>VVIntegrator\<close> that the modelled member functions read or write.
  \<open>owner\<close> and \<open>ctx\<close> are the members \<^verbatim>\<open>owner\<close> and \<^verbatim>\<open>context\<close> inherited from
  \<^verbatim>\<open>Integrator\<close>; \<open>kernels\<close> lists the kernels that \<^verbatim>\<open>initialize\<close> has created. An entry
  of \<open>residueInvMasses\<close> is \<open>None\<close> where the C++ stores the non-finite \<^verbatim>\<open>1.0/0\<close>.
\<close>

record VVIntegrator =
  owner :: "nat option"
  ctx :: "nat option"
  temperature :: real
  frequency :: real
  drudeTemperature :: real
  drudeFrequency :: real
  stepSize :: real
  numNHChains :: int
  loopsPerStep :: int
  useCOMTempGroup :: bool
  cosAcceleration :: real
  forcesAreValid :: bool
  particlesNH :: "int list"
  residuesNH :: "int list"
  particlesLD :: "int list"
  particlesImage :: "int list"
  particlesElectrolyte :: "int list"
  imagePairs :: "(int \<times> int) list"
  particleResId :: "int list"
  residueMasses :: "real list"
  residueInvMasses :: "real option list"
  kernels :: "kernel list"

text \<open>
  The constructor: the eight arguments are stored, \<^verbatim>\<open>forcesAreValid\<close> is false, the cosine
  acceleration is 0, every container is empty and the integrator is bound to nothing.
\<close>

definition VVIntegrator_new ::
  "real \<Rightarrow> real \<Rightarrow> real \<Rightarrow> real \<Rightarrow> real \<Rightarrow> int \<Rightarrow> int \<Rightarrow> bool \<Rightarrow> VVIntegrator" where
  "VVIntegrator_new temp freq drudeTemp drudeFreq dt nch loops useCOM =
     \<lparr> owner = None, ctx = None,
       temperature = temp, frequency = freq,
       drudeTemperature = drudeTemp, drudeFrequency = drudeFreq,
       stepSize = dt, numNHChains = nch, loopsPerStep = loops,
       useCOMTempGroup = useCOM, cosAcceleration = 0, forcesAreValid = False,
       particlesNH = [], residuesNH = [], particlesLD = [], particlesImage = [],
       particlesElectrolyte = [], imagePairs = [], particleResId = [],
       residueMasses = [], residueInvMasses = [], kernels = [] \<rparr>"

subsection \<open>Registering image pairs\<close>

text \<open>
  \<^verbatim>\<open>return imagePairs.size();\<close> in a function returning \<^verbatim>\<open>int\<close>: the \<^verbatim>\<open>size_t\<close> is
  converted to a 32-bit two's complement \<^verbatim>\<open>int\<close>.
\<close>

definition size_to_int :: "nat \<Rightarrow> int" where
  "size_to_int n = sint (word_of_nat n :: 32 word)"

definition addImagePair :: "int \<Rightarrow> int \<Rightarrow> VVIntegrator \<Rightarrow> int \<times> VVIntegrator" where
  "addImagePair img parent s =
     (let s1 = s\<lparr>particlesImage := particlesImage s @ [img]\<rparr>;
          s2 = s1\<lparr>imagePairs := imagePairs s1 @ [(img, parent)]\<rparr>
      in (size_to_int (length (imagePairs s2)), s2))"

text \<open>A sequence of calls, in order; the values returned are collected in call order.\<close>

fun addImagePair_calls :: "(int \<times> int) list \<Rightarrow> VVIntegrator \<Rightarrow> int list \<times> VVIntegrator" where
  "addImagePair_calls [] s = ([], s)"
| "addImagePair_calls ((img, parent) # cs) s =
     (case addImagePair img parent s of
        (r, s') \<Rightarrow> (case addImagePair_calls cs s' of (rs, s'') \<Rightarrow> (r # rs, s'')))"

subsection \<open>The simulation context, as far as the integrator reads it\<close>

text \<open>
  A force of the system is a \<^verbatim>\<open>DrudeForce\<close> (with the pairs \<open>(p, p1)\<close> of its particles), a
  \<^verbatim>\<open>CMMotionRemover\<close>, or any other force. \<open>particleMasses\<close> has one entry per particle
  (\<^verbatim>\<open>getNumParticles\<close> is its length), a constraint is \<open>(p, p1, distance)\<close>.
  \<open>address\<close> stands for \<^verbatim>\<open>&contextRef\<close> and \<open>contextOwner\<close> for \<^verbatim>\<open>&contextRef.getOwner()\<close>.
\<close>

datatype force = DrudeForce "(int \<times> int) list" | CMMotionRemover | OtherForce

record System =
  particleMasses :: "real list"
  constraints :: "(int \<times> int \<times> real) list"
  forces :: "force list"

record ContextImpl =
  address :: nat
  contextOwner :: nat
  system :: System
  molecules :: "int list list"

definition getNumParticles :: "System \<Rightarrow> nat" where
  "getNumParticles sys = length (particleMasses sys)"

subsection \<open>Accessors\<close>

text \<open>
  \<^verbatim>\<open>getParticleResId\<close> and \<^verbatim>\<open>getResInvMass\<close> check their index with
  \<^verbatim>\<open>ASSERT_VALID_INDEX\<close>.
\<close>

definition getParticleResId :: "VVIntegrator \<Rightarrow> int \<Rightarrow> error + int" where
  "getParticleResId s particle =
     (if 0 \<le> particle \<and> particle < int (length (particleResId s))
      then Inr (particleResId s ! nat particle) else Inl AssertionFailure)"

definition getResInvMass :: "VVIntegrator \<Rightarrow> int \<Rightarrow> error + real option" where
  "getResInvMass s resid =
     (if 0 \<le> resid \<and> resid < int (length (residueInvMasses s))
      then Inr (residueInvMasses s ! nat resid) else Inl AssertionFailure)"

text \<open>
  Modelled from the spec: \<^verbatim>\<open>isParticleLD\<close>, \<^verbatim>\<open>isParticleImage\<close> and \<^verbatim>\<open>isParticleNH\<close> are
  declared in openmm/VVIntegrator.h, which is not among the sources. Following the
  role sets of the spec's data model, a particle has a role when it is a member of the
  integrator's set for that role.
\<close>

definition isParticleLD :: "VVIntegrator \<Rightarrow> int \<Rightarrow> bool" where
  "isParticleLD s particle = (particle \<in> set (particlesLD s))"

definition isParticleImage :: "VVIntegrator \<Rightarrow> int \<Rightarrow> bool" where
  "isParticleImage s particle = (particle \<in> set (particlesImage s))"

definition isParticleNH :: "VVIntegrator \<Rightarrow> int \<Rightarrow> bool" where
  "isParticleNH s particle = (particle \<in> set (particlesNH s))"

subsection \<open>Binding: \<^verbatim>\<open>VVIntegrator::initialize\<close>\<close>

text \<open>The scan of the system's forces for the one \<^verbatim>\<open>DrudeForce\<close>.\<close>

fun find_drude :: "force list \<Rightarrow> (int \<times> int) list option \<Rightarrow> error + (int \<times> int) list option" where
  "find_drude [] force = Inr force"
| "find_drude (DrudeForce ps # fs) force =
     (if force = None then find_drude fs (Some ps)
      else Inl MultipleForceDefinition)"
| "find_drude (f # fs) force = find_drude fs force"

text \<open>
  \<^verbatim>\<open>particleResId[molecules[i][j]] = i\<close> over the members of molecule \<open>i\<close>, then over the
  molecules.
\<close>

fun assign_molecule :: "int \<Rightarrow> int list \<Rightarrow> int list \<Rightarrow> error + int list" where
  "assign_molecule i [] tab = Inr tab"
| "assign_molecule i (p # ps) tab =
     (if 0 \<le> p \<and> p < int (length tab) then assign_molecule i ps (tab[nat p := i])
      else Inl UndefinedBehaviour)"

fun assign_molecules :: "int \<Rightarrow> int list list \<Rightarrow> int list \<Rightarrow> error + int list" where
  "assign_molecules i [] tab = Inr tab"
| "assign_molecules i (m # ms) tab =
     (case assign_molecule i m tab of
        Inl e \<Rightarrow> Inl e
      | Inr tab' \<Rightarrow> assign_molecules (i + 1) ms tab')"

text \<open>
  \<^verbatim>\<open>residueMasses[particleResId[i]] += system.getParticleMass(i)\<close> for the particles in
  order; the argument pairs each particle's residue id with its mass.
\<close>

fun add_masses :: "(int \<times> real) list \<Rightarrow> real list \<Rightarrow> error + real list" where
  "add_masses [] rm = Inr rm"
| "add_masses ((r, m) # rest) rm =
     (if 0 \<le> r \<and> r < int (length rm) then add_masses rest (rm[nat r := rm ! nat r + m])
      else Inl UndefinedBehaviour)"

definition inverse_mass :: "real \<Rightarrow> real option" where
  "inverse_mass m = (if m = 0 then None else Some (1 / m))"

text \<open>
  The first loop over the particles: a particle that is neither Langevin-thermostatted nor
  an image is appended to \<open>particlesNH\<close>, and its residue to \<open>residuesNH\<close> unless it is there.
\<close>

fun classify_NH :: "int list \<Rightarrow> VVIntegrator \<Rightarrow> error + VVIntegrator" where
  "classify_NH [] s = Inr s"
| "classify_NH (i # rest) s =
     (if \<not> isParticleLD s i \<and> \<not> isParticleImage s i then
        (let s1 = s\<lparr>particlesNH := particlesNH s @ [i]\<rparr> in
         case getParticleResId s1 i of
           Inl e \<Rightarrow> Inl e
         | Inr r \<Rightarrow>
             if r \<in> set (residuesNH s1) then classify_NH rest s1
             else classify_NH rest (s1\<lparr>residuesNH := residuesNH s1 @ [r]\<rparr>))
      else classify_NH rest s)"

text \<open>
  The second loop: a Langevin-thermostatted particle whose residue is in \<open>residuesNH\<close> is a
  conflict. The residue is looked up only for a Langevin particle (\<^verbatim>\<open>&&\<close>).
\<close>

fun check_LD :: "int list \<Rightarrow> VVIntegrator \<Rightarrow> error + unit" where
  "check_LD [] s = Inr ()"
| "check_LD (i # rest) s =
     (if isParticleLD s i then
        (case getParticleResId s i of
           Inl e \<Rightarrow> Inl e
         | Inr r \<Rightarrow>
             if r \<in> set (residuesNH s)
             then Inl NHLangevinConflict
             else check_LD rest s)
      else check_LD rest s)"

text \<open>The kernels that \<^verbatim>\<open>initialize\<close> creates, by non-emptiness of the role sets.\<close>

definition created_kernels :: "VVIntegrator \<Rightarrow> kernel list" where
  "created_kernels s =
     [IntegrateVVStepKernel]
     @ (if particlesNH s \<noteq> [] then [ModifyDrudeNoseKernel] else [])
     @ (if particlesLD s \<noteq> [] then [ModifyDrudeLangevinKernel] else [])
     @ (if particlesImage s \<noteq> [] then [ModifyImageChargeKernel] else [])
     @ (if particlesElectrolyte s \<noteq> [] then [ModifyElectricFieldKernel] else [])
     @ (if cosAcceleration s \<noteq> 0 then [ModifyPeriodicPerturbationKernel] else [])"

text \<open>
  The tables of \<^verbatim>\<open>initialize\<close>: \<open>particleResId\<close> from the context's molecules, the
  residue masses, and their inverses appended to \<open>residueInvMasses\<close>.
\<close>

definition build_tables :: "ContextImpl \<Rightarrow> VVIntegrator \<Rightarrow> error + VVIntegrator" where
  "build_tables contextRef s =
     (let n = getNumParticles (system contextRef);
          numResidues = length (molecules contextRef)
      in case assign_molecules 0 (molecules contextRef) (replicate n (- 1)) of
           Inl e \<Rightarrow> Inl e
         | Inr tab \<Rightarrow>
             (let s1 = s\<lparr>particleResId := tab\<rparr>
              in case add_masses (zip (particleResId s1) (particleMasses (system contextRef)))
                        (replicate numResidues 0) of
                   Inl e \<Rightarrow> Inl e
                 | Inr rm \<Rightarrow>
                     (let s2 = s1\<lparr>residueMasses := rm\<rparr>
                      in Inr (s2\<lparr>residueInvMasses :=
                                residueInvMasses s2 @ map inverse_mass (residueMasses s2)\<rparr>))))"

text \<open>The two loops that classify the particles and look for a thermostat conflict.\<close>

definition classify :: "ContextImpl \<Rightarrow> VVIntegrator \<Rightarrow> error + VVIntegrator" where
  "classify contextRef s =
     (let n = getNumParticles (system contextRef)
      in case classify_NH (map int [0..<n]) s of
           Inl e \<Rightarrow> Inl e
         | Inr s' \<Rightarrow>
             (case check_LD (map int [0..<n]) s' of
                Inl e \<Rightarrow> Inl e
              | Inr u \<Rightarrow> Inr s'))"

text \<open>
  The binding proper: \<^verbatim>\<open>context\<close> and \<^verbatim>\<open>owner\<close> are set and the kernels are created. The
  kernels' own \<^verbatim>\<open>initialize\<close> functions belong to the platform and are not part of this
  model; the degree-of-freedom accounting of the CUDA Nose-Hoover kernel is modelled on
  its own below.
\<close>

definition bind_context :: "ContextImpl \<Rightarrow> VVIntegrator \<Rightarrow> VVIntegrator" where
  "bind_context contextRef s =
     (let s1 = s\<lparr>ctx := Some (address contextRef)\<rparr>;
          s2 = s1\<lparr>owner := Some (contextOwner contextRef)\<rparr>
      in s2\<lparr>kernels := List.union (kernels s2) (created_kernels s2)\<rparr>)"

text \<open>\<^verbatim>\<open>initialize\<close>, in the order of its statements.\<close>

definition initialize :: "ContextImpl \<Rightarrow> VVIntegrator \<Rightarrow> error + VVIntegrator" where
  "initialize contextRef s =
     (if owner s \<noteq> None \<and> Some (contextOwner contextRef) \<noteq> owner s
      then Inl BindingConflict
      else
        (case find_drude (forces (system contextRef)) None of
           Inl e \<Rightarrow> Inl e
         | Inr force \<Rightarrow>
             (if force = None \<and> useCOMTempGroup s then Inl COMWithoutDrude
              else
                (case build_tables contextRef s of
                   Inl e \<Rightarrow> Inl e
                 | Inr s1 \<Rightarrow>
                     (case classify contextRef s1 of
                        Inl e \<Rightarrow> Inl e
                      | Inr s2 \<Rightarrow>
                          (if particlesLD s2 \<noteq> [] \<and> cosAcceleration s2 \<noteq> 0
                           then Inl LangevinPerturbationConflict
                           else Inr (bind_context contextRef s2)))))))"

text \<open>
  Notions for stating what the classification decides. The molecules of a context
  partition its particles: every particle is in exactly one molecule. A residue is mixed
  when it holds a Langevin particle and a Nose-Hoover one, that is, one that is neither
  Langevin nor image. Two integrator states have the same roles when they agree on the
  Langevin and image sets, the residue ids, the inverse residue masses and the cosine
  acceleration.
\<close>

fun is_DrudeForce :: "force \<Rightarrow> bool" where
  "is_DrudeForce (DrudeForce ps) = True"
| "is_DrudeForce f = False"

definition molecules_partition :: "ContextImpl \<Rightarrow> bool" where
  "molecules_partition contextRef =
     (distinct (concat (molecules contextRef)) \<and>
      set (concat (molecules contextRef)) = set (map int [0..<getNumParticles (system contextRef)]))"

definition mixed_residue :: "ContextImpl \<Rightarrow> VVIntegrator \<Rightarrow> bool" where
  "mixed_residue contextRef s =
     list_ex (\<lambda>m. list_ex (isParticleLD s) m \<and>
                  list_ex (\<lambda>q. \<not> isParticleLD s q \<and> \<not> isParticleImage s q) m)
       (molecules contextRef)"

definition same_roles :: "VVIntegrator \<Rightarrow> VVIntegrator \<Rightarrow> bool" where
  "same_roles s s' =
     (particlesLD s' = particlesLD s \<and> particlesImage s' = particlesImage s \<and>
      particleResId s' = particleResId s \<and> residueInvMasses s' = residueInvMasses s \<and>
      cosAcceleration s' = cosAcceleration s)"

subsection \<open>Stepping: \<^verbatim>\<open>VVIntegrator::step\<close>\<close>

text \<open>
  The context and the kernels are collaborators: what \<^verbatim>\<open>step\<close> does to them is recorded
  as the sequence of calls it makes. \<^verbatim>\<open>firstIntegrate\<close> and \<^verbatim>\<open>secondIntegrate\<close> receive
  \<^verbatim>\<open>forcesAreValid\<close> by reference: the CUDA \<^verbatim>\<open>firstIntegrate\<close> may clear it when the atoms were
  reordered, and \<^verbatim>\<open>step\<close> sets it again after the forces are recomputed, before anything
  reads it; the CUDA \<^verbatim>\<open>secondIntegrate\<close> leaves it as it is. The calls record the value passed.
\<close>

datatype call =
    UpdateContextState
  | CalcForcesAndEnergy
  | CalcVelocityBias
  | RemoveVelocityBias
  | CalcGroupKineticEnergies
  | ScaleVelocity
  | RestoreVelocityBias
  | FirstIntegrate bool
  | UpdateImagePositions
  | ResetExtraForce
  | ApplyLangevinForce
  | ApplyElectricForce
  | ApplyCosForce
  | SecondIntegrate bool

text \<open>A call made only under a condition.\<close>

definition call_if :: "bool \<Rightarrow> call \<Rightarrow> call list" where
  "call_if b c = (if b then [c] else [])"

text \<open>The Nose-Hoover block, run before the first and after the second half step.\<close>

definition thermostat_calls :: "VVIntegrator \<Rightarrow> call list" where
  "thermostat_calls s =
     (if particlesNH s \<noteq> [] then
        call_if (cosAcceleration s \<noteq> 0) CalcVelocityBias
        @ call_if (cosAcceleration s \<noteq> 0) RemoveVelocityBias
        @ [CalcGroupKineticEnergies, ScaleVelocity]
        @ call_if (cosAcceleration s \<noteq> 0) RestoreVelocityBias
      else [])"

text \<open>
  The body of the loop: one full step. \<open>changed\<close> is what \<^verbatim>\<open>updateContextState()\<close> returns
  in this iteration; the state is the integrator and the calls made so far. \<open>v1\<close>, \<open>v2\<close>
  and \<open>v3\<close> are the successive values of \<^verbatim>\<open>forcesAreValid\<close>.
\<close>

definition step_body :: "bool \<Rightarrow> VVIntegrator \<times> call list \<Rightarrow> VVIntegrator \<times> call list" where
  "step_body changed st =
     (let s = fst st;
          v1 = (if changed then False else forcesAreValid s);
          v2 = (if \<not> v1 then True else v1);
          v3 = True
      in (s\<lparr>forcesAreValid := v3\<rparr>,
          snd st
          @ [UpdateContextState]
          @ call_if (\<not> v1) CalcForcesAndEnergy
          @ thermostat_calls s
          @ [FirstIntegrate v2]
          @ call_if (particlesImage s \<noteq> []) UpdateImagePositions
          @ [CalcForcesAndEnergy]
          @ call_if (particlesLD s \<noteq> [] \<or> particlesElectrolyte s \<noteq> [] \<or> cosAcceleration s \<noteq> 0)
              ResetExtraForce
          @ call_if (particlesLD s \<noteq> []) ApplyLangevinForce
          @ call_if (particlesElectrolyte s \<noteq> []) ApplyElectricForce
          @ call_if (cosAcceleration s \<noteq> 0) ApplyCosForce
          @ [SecondIntegrate v3]
          @ thermostat_calls s))"

text \<open>
  \<^verbatim>\<open>for (int i = 0; i < steps; ++i)\<close>; \<open>upd i\<close> is the answer of \<^verbatim>\<open>updateContextState()\<close>
  in iteration \<open>i\<close>.
\<close>

function step_loop ::
  "(nat \<Rightarrow> bool) \<Rightarrow> int \<Rightarrow> int \<Rightarrow> VVIntegrator \<times> call list \<Rightarrow> VVIntegrator \<times> call list" where
  "step_loop upd i steps st =
     (if i < steps then step_loop upd (i + 1) steps (step_body (upd (nat i)) st) else st)"
  by pat_completeness auto
termination
  by (relation "measure (\<lambda>(upd, i, steps, st). nat (steps - i))") auto

definition step ::
  "(nat \<Rightarrow> bool) \<Rightarrow> int \<Rightarrow> VVIntegrator \<times> call list \<Rightarrow> error + VVIntegrator \<times> call list" where
  "step upd steps st =
     (if ctx (fst st) = None
      then Inl UnboundUsage
      else Inr (step_loop upd 0 steps st))"

text \<open>The calls to \<^verbatim>\<open>firstIntegrate\<close>, of which a full step makes exactly one.\<close>

fun is_FirstIntegrate :: "call \<Rightarrow> bool" where
  "is_FirstIntegrate (FirstIntegrate v) = True"
| "is_FirstIntegrate c = False"

subsection \<open>Degrees of freedom: \<^verbatim>\<open>CudaModifyDrudeNoseKernel::initialize\<close>\<close>

text \<open>\<^verbatim>\<open>enum{TG_ATOM, TG_COM, TG_DRUDE, NUM_TG};\<close>\<close>

definition TG_ATOM :: nat where "TG_ATOM = 0"
definition TG_COM :: nat where "TG_COM = 1"
definition TG_DRUDE :: nat where "TG_DRUDE = 2"
definition NUM_TG :: nat where "NUM_TG = 3"

text \<open>
  The loop over the particles. The residue id and the inverse residue mass are looked up
  for every particle; the inverse mass is used for a massive Nose-Hoover particle under
  centre-of-mass grouping, and a non-finite one (\<open>None\<close>) takes the count out of this
  reading (\<open>dof_particles_fp\<close> goes on with the infinity).
\<close>

fun dof_particles :: "System \<Rightarrow> VVIntegrator \<Rightarrow> int list \<Rightarrow> real list \<Rightarrow> error + real list" where
  "dof_particles sys integrator [] dof = Inr dof"
| "dof_particles sys integrator (i # rest) dof =
     (case getParticleResId integrator i of
        Inl e \<Rightarrow> Inl e
      | Inr resid \<Rightarrow>
          (let mass = particleMasses sys ! nat i
           in case getResInvMass integrator resid of
                Inl e \<Rightarrow> Inl e
              | Inr resInvMass \<Rightarrow>
                  (if isParticleNH integrator i \<and> mass \<noteq> 0 then
                     (let dof1 = dof[TG_ATOM := dof ! TG_ATOM + 3]
                      in if useCOMTempGroup integrator then
                           (case resInvMass of
                              None \<Rightarrow> Inl DivisionByZero
                            | Some w \<Rightarrow>
                                dof_particles sys integrator rest
                                  (dof1[TG_ATOM := dof1 ! TG_ATOM - 3 * mass * w]))
                         else dof_particles sys integrator rest dof1)
                   else dof_particles sys integrator rest dof)))"

text \<open>The loop over the particles of the \<^verbatim>\<open>DrudeForce\<close>: \<open>(p, p1)\<close> is a core and its shell.\<close>

fun dof_drude :: "VVIntegrator \<Rightarrow> (int \<times> int) list \<Rightarrow> real list \<Rightarrow> real list" where
  "dof_drude integrator [] dof = dof"
| "dof_drude integrator ((p, p1) # rest) dof =
     (if isParticleNH integrator p then
        (let dof1 = dof[TG_ATOM := dof ! TG_ATOM - 3];
             dof2 = dof1[TG_DRUDE := dof1 ! TG_DRUDE + 3]
         in dof_drude integrator rest dof2)
      else dof_drude integrator rest dof)"

text \<open>The loop over the constraints \<open>(p, p1, distance)\<close>.\<close>

fun dof_constraints :: "VVIntegrator \<Rightarrow> (int \<times> int \<times> real) list \<Rightarrow> real list \<Rightarrow> real list" where
  "dof_constraints integrator [] dof = dof"
| "dof_constraints integrator ((p, p1, distance) # rest) dof =
     (if isParticleNH integrator p
      then dof_constraints integrator rest (dof[TG_ATOM := dof ! TG_ATOM - 1])
      else dof_constraints integrator rest dof)"

text \<open>The loop over the forces: the first \<^verbatim>\<open>CMMotionRemover\<close> takes 3 away, then \<^verbatim>\<open>break\<close>.\<close>

fun dof_cmmotion :: "VVIntegrator \<Rightarrow> force list \<Rightarrow> real list \<Rightarrow> real list" where
  "dof_cmmotion integrator [] dof = dof"
| "dof_cmmotion integrator (CMMotionRemover # fs) dof =
     (if useCOMTempGroup integrator then dof[TG_COM := dof ! TG_COM - 3]
      else dof[TG_ATOM := dof ! TG_ATOM - 3])"
| "dof_cmmotion integrator (f # fs) dof = dof_cmmotion integrator fs dof"

text \<open>\<^verbatim>\<open>std::max(a, b)\<close> is \<^verbatim>\<open>(a < b) ? b : a\<close>.\<close>

definition std_max :: "real \<Rightarrow> real \<Rightarrow> real" where
  "std_max a b = (if a < b then b else a)"

text \<open>
  The accounting, from \<^verbatim>\<open>tempGroupDof = std::vector<double>(NUM_TG, 0.0)\<close> to the clamp.
  \<open>force\<close> is the \<^verbatim>\<open>DrudeForce\<close> pointer (\<open>None\<close> is \<^verbatim>\<open>NULL\<close>), given by its particle pairs.
\<close>

definition tempGroupDof ::
  "System \<Rightarrow> VVIntegrator \<Rightarrow> (int \<times> int) list option \<Rightarrow> error + real list" where
  "tempGroupDof sys integrator force =
     (case dof_particles sys integrator (map int [0..<getNumParticles sys])
             (replicate NUM_TG 0) of
        Inl e \<Rightarrow> Inl e
      | Inr dof1 \<Rightarrow>
          (let dof2 = (case force of None \<Rightarrow> dof1
                       | Some pairs \<Rightarrow> dof_drude integrator pairs dof1);
               dof3 = dof_constraints integrator (constraints sys) dof2;
               dof4 = (if useCOMTempGroup integrator
                       then dof3[TG_COM := 3 * real (length (residuesNH integrator))]
                       else dof3);
               dof5 = dof_cmmotion integrator (forces sys) dof4
           in Inr (map (\<lambda>d. std_max d 0) dof5)))"

text \<open>
  The tables of the integrator cover the system: every particle has a residue id, and
  every such id has an inverse mass. \<^verbatim>\<open>VVIntegrator::initialize\<close> builds them so.
\<close>

definition tables_cover :: "System \<Rightarrow> VVIntegrator \<Rightarrow> bool" where
  "tables_cover sys integrator =
     (getNumParticles sys \<le> length (particleResId integrator) \<and>
      list_all (\<lambda>r. 0 \<le> r \<and> r < int (length (residueInvMasses integrator)))
        (take (getNumParticles sys) (particleResId integrator)))"

text \<open>The number of Nose-Hoover-thermostatted particles of the system.\<close>

definition numParticlesNH :: "System \<Rightarrow> VVIntegrator \<Rightarrow> nat" where
  "numParticlesNH sys integrator =
     length (filter (isParticleNH integrator) (map int [0..<getNumParticles sys]))"

subsection \<open>The Nose-Hoover chain: \<^verbatim>\<open>VVIntegrator::propagateNHChain\<close>\<close>

text \<open>
  The three vectors that the function updates in place. The fourth, \<^verbatim>\<open>eta_mass\<close>, is only
  read and is passed on its own; the four are distinct vectors, as in the one caller
  (\<^verbatim>\<open>scaleVelocity\<close>).
\<close>

record nh_chain =
  eta :: "real list"
  eta_dot :: "real list"
  eta_dotdot :: "real list"

text \<open>
  The first inner loop, \<^verbatim>\<open>for (int ich = numNHChains - 1; ich >= 0; ich--)\<close>. The counter
  of the recursion is \<open>ich + 1\<close>, the number of links still to update; the state is
  \<^verbatim>\<open>eta_dot\<close> and the local \<^verbatim>\<open>expfac\<close>.
\<close>

fun kick_inward ::
  "real \<Rightarrow> real \<Rightarrow> real list \<Rightarrow> nat \<Rightarrow> real list \<times> real \<Rightarrow> real list \<times> real" where
  "kick_inward dt4 dt8 edd 0 (ed, expfac) = (ed, expfac)"
| "kick_inward dt4 dt8 edd (Suc ich) (ed, expfac) =
     (let expfac = exp (- dt8 * ed ! (ich + 1));
          ed = ed[ich := ed ! ich * expfac];
          ed = ed[ich := ed ! ich + edd ! ich * dt4];
          ed = ed[ich := ed ! ich * expfac]
      in kick_inward dt4 dt8 edd ich (ed, expfac))"

text \<open>\<^verbatim>\<open>for (int ich = 0; ich < numNHChains; ich++) eta[ich] += dt2 * eta_dot[ich];\<close>\<close>

definition advance_eta :: "real \<Rightarrow> real list \<Rightarrow> nat \<Rightarrow> real list \<Rightarrow> real list" where
  "advance_eta dt2 ed n e = fold (\<lambda>ich e. e[ich := e ! ich + dt2 * ed ! ich]) [0..<n] e"

text \<open>
  The last inner loop, \<^verbatim>\<open>for (int ich = 1; ich < numNHChains; ich++)\<close>, with its division by
  \<^verbatim>\<open>eta_mass[ich]\<close>. \<open>kT\<close> is \<^verbatim>\<open>BOLTZ * t_target\<close>.
\<close>

function kick_outward ::
  "real \<Rightarrow> real \<Rightarrow> real \<Rightarrow> real list \<Rightarrow> nat \<Rightarrow> nat \<Rightarrow> real list \<times> real list \<times> real
   \<Rightarrow> error + real list \<times> real list \<times> real" where
  "kick_outward dt4 dt8 kT mass n ich (ed, edd, expfac) =
     (if ich < n then
        (let expfac = exp (- dt8 * ed ! (ich + 1));
             ed = ed[ich := ed ! ich * expfac]
         in if mass ! ich = 0 then Inl DivisionByZero
            else
              (let edd = edd[ich := (mass ! (ich - 1) * ed ! (ich - 1) * ed ! (ich - 1) - kT)
                                     / mass ! ich];
                   ed = ed[ich := ed ! ich + edd ! ich * dt4];
                   ed = ed[ich := ed ! ich * expfac]
               in kick_outward dt4 dt8 kT mass n (ich + 1) (ed, edd, expfac)))
      else Inr (ed, edd, expfac))"
  by pat_completeness auto
termination
  by (relation "measure (\<lambda>(dt4, dt8, kT, mass, n, ich, st). n - ich)") auto

text \<open>
  What one pass of that loop's body leaves at link \<open>ich\<close>: the new \<^verbatim>\<open>eta_dotdot[ich]\<close>, and
  \<^verbatim>\<open>eta_dot[ich]\<close> after its three updates.
\<close>

definition outward_edd :: "real \<Rightarrow> real list \<Rightarrow> nat \<Rightarrow> real list \<Rightarrow> real list \<Rightarrow> real list" where
  "outward_edd kT mass ich ed edd =
     edd[ich := (mass ! (ich - 1) * ed ! (ich - 1) * ed ! (ich - 1) - kT) / mass ! ich]"

definition outward_ed ::
  "real \<Rightarrow> real \<Rightarrow> real \<Rightarrow> real list \<Rightarrow> nat \<Rightarrow> real list \<Rightarrow> real list \<Rightarrow> real list" where
  "outward_ed dt4 dt8 kT mass ich ed edd =
     ed[ich := (ed ! ich * exp (- dt8 * ed ! (ich + 1))
                + outward_edd kT mass ich ed edd ! ich * dt4)
               * exp (- dt8 * ed ! (ich + 1))]"

text \<open>
  The body of the outer loop: one sub-iteration. The state is the chain, the local
  \<^verbatim>\<open>expfac\<close> and the output \<^verbatim>\<open>factor\<close>.
\<close>

definition sub_iteration ::
  "real \<Rightarrow> real \<Rightarrow> real \<Rightarrow> real \<Rightarrow> real list \<Rightarrow> nat \<Rightarrow> real \<Rightarrow> real
   \<Rightarrow> nh_chain \<times> real \<times> real \<Rightarrow> error + nh_chain \<times> real \<times> real" where
  "sub_iteration dt2 dt4 dt8 kT mass n ke2 ke2_target st =
     (case st of (c, expfac, factor) \<Rightarrow>
        (case kick_inward dt4 dt8 (eta_dotdot c) n (eta_dot c, expfac) of (ed, expfac) \<Rightarrow>
           (let factor = factor * exp (- dt2 * ed ! 0);
                e = advance_eta dt2 ed n (eta c)
            in if mass ! 0 = 0 then Inl DivisionByZero
               else
                 (let edd = (eta_dotdot c)[0 := (ke2 * factor * factor - ke2_target) / mass ! 0];
                      ed = ed[0 := ed ! 0 * expfac];
                      ed = ed[0 := ed ! 0 + edd ! 0 * dt4];
                      ed = ed[0 := ed ! 0 * expfac]
                  in case kick_outward dt4 dt8 kT mass n 1 (ed, edd, expfac) of
                       Inl err \<Rightarrow> Inl err
                     | Inr (ed, edd, expfac) \<Rightarrow>
                         Inr (\<lparr>eta = e, eta_dot = ed, eta_dotdot = edd\<rparr>, expfac, factor)))))"

text \<open>\<^verbatim>\<open>for (int iloop = 0; iloop < loopsPerStep; iloop++)\<close>, by the number of iterations left.\<close>

fun nh_loop ::
  "(nh_chain \<times> real \<times> real \<Rightarrow> error + nh_chain \<times> real \<times> real) \<Rightarrow> nat
   \<Rightarrow> nh_chain \<times> real \<times> real \<Rightarrow> error + nh_chain \<times> real \<times> real" where
  "nh_loop body 0 st = Inr st"
| "nh_loop body (Suc k) st =
     (case body st of Inl err \<Rightarrow> Inl err | Inr st' \<Rightarrow> nh_loop body k st')"

text \<open>
  Every access of a call is inside its vector. When the outer loop does not run, the call
  reads \<^verbatim>\<open>eta_mass[0]\<close> and, for a positive mass, writes \<^verbatim>\<open>eta_dotdot[0]\<close>. When it runs, it
  touches the links \<open>0\<close> to \<open>numNHChains - 1\<close> of each vector and \<^verbatim>\<open>eta_dot[numNHChains]\<close>,
  and with no link at all it would read \<^verbatim>\<open>expfac\<close> uninitialised.
\<close>

definition nh_in_bounds :: "VVIntegrator \<Rightarrow> nh_chain \<Rightarrow> real list \<Rightarrow> bool" where
  "nh_in_bounds integrator c mass =
     (if loopsPerStep integrator \<le> 0
      then 1 \<le> length mass \<and> (if 0 < mass ! 0 then 1 \<le> length (eta_dotdot c) else True)
      else 1 \<le> numNHChains integrator \<and>
           nat (numNHChains integrator) \<le> length (eta c) \<and>
           nat (numNHChains integrator) + 1 \<le> length (eta_dot c) \<and>
           nat (numNHChains integrator) \<le> length (eta_dotdot c) \<and>
           nat (numNHChains integrator) \<le> length mass)"

text \<open>
  The statements before the outer loop: \<^verbatim>\<open>factor = 1.0\<close> and the guarded first value of
  \<^verbatim>\<open>eta_dotdot[0]\<close>. \<^verbatim>\<open>expfac\<close> is declared without a value; the model starts it at 0, and
  within bounds it is assigned before it is read.
\<close>

definition nh_prologue ::
  "nh_chain \<Rightarrow> real list \<Rightarrow> real \<Rightarrow> real \<Rightarrow> nh_chain \<times> real \<times> real" where
  "nh_prologue c mass ke2 ke2_target =
     (let factor = 1;
          c = (if 0 < mass ! 0
               then c\<lparr>eta_dotdot := (eta_dotdot c)[0 := (ke2 - ke2_target) / mass ! 0]\<rparr>
               else c)
      in (c, 0, factor))"

text \<open>
  \<^verbatim>\<open>propagateNHChain\<close>. \<open>BOLTZ\<close> is the constant of that name, defined in a header of
  OpenMM (SimTKOpenMMRealType.h) and taken here as a parameter. The result is the updated
  chain and \<^verbatim>\<open>factor\<close>. With \<^verbatim>\<open>loopsPerStep\<close> zero the three time steps are not finite in
  C++, and no statement reads them.
\<close>

definition propagateNHChain ::
  "real \<Rightarrow> VVIntegrator \<Rightarrow> nh_chain \<Rightarrow> real list \<Rightarrow> real \<Rightarrow> real \<Rightarrow> real
   \<Rightarrow> error + nh_chain \<times> real" where
  "propagateNHChain BOLTZ integrator c mass ke2 ke2_target t_target =
     (if \<not> nh_in_bounds integrator c mass then Inl UndefinedBehaviour
      else
        (let dt2 = stepSize integrator / real_of_int (loopsPerStep integrator) / 2;
             dt4 = dt2 / 2;
             dt8 = dt4 / 2
         in case nh_loop
                   (sub_iteration dt2 dt4 dt8 (BOLTZ * t_target) mass
                      (nat (numNHChains integrator)) ke2 ke2_target)
                   (nat (loopsPerStep integrator))
                   (nh_prologue c mass ke2 ke2_target) of
              Inl err \<Rightarrow> Inl err
            | Inr (c', expfac, factor) \<Rightarrow> Inr (c', factor)))"

text \<open>
  What a call leaves alone in a chain of \<open>n\<close> links: the lengths of the three vectors, and
  every entry from index \<open>n\<close> on, among them the terminator \<^verbatim>\<open>eta_dot[n]\<close>.
\<close>

definition nh_frame :: "nat \<Rightarrow> nh_chain \<Rightarrow> nh_chain \<Rightarrow> bool" where
  "nh_frame n c c' =
     (length (eta c') = length (eta c) \<and> length (eta_dot c') = length (eta_dot c) \<and>
      length (eta_dotdot c') = length (eta_dotdot c) \<and>
      (\<forall>j\<ge>n. eta c' ! j = eta c ! j \<and> eta_dot c' ! j = eta_dot c ! j \<and>
             eta_dotdot c' ! j = eta_dotdot c ! j))"

subsection \<open>The reference sequence of the specification\<close>

text \<open>
  A second description of one sub-iteration, written from the words of the specification
  (section 4.3, steps 1 to 5) and not from the code: each step is given by its formula
  over the chain links, there is no \<^verbatim>\<open>expfac\<close> variable carried from step to step, and the
  state is the chain and the running scale factor. The divisions are those of the
  embedding: a zero divisor ends the run with \<open>DivisionByZero\<close>.

  The half-kick pattern of the specification, for link \<open>ich\<close>:
  \<^verbatim>\<open>expfac = exp(-dt8 * etaDot[ich+1])\<close>, then
  \<^verbatim>\<open>etaDot[ich] = (etaDot[ich] * expfac + etaDotDot[ich] * dt4) * expfac\<close>.
\<close>

definition ref_half_kick :: "real \<Rightarrow> real \<Rightarrow> real list \<Rightarrow> nat \<Rightarrow> real list \<Rightarrow> real list" where
  "ref_half_kick dt4 dt8 etaDotDot ich etaDot =
     etaDot[ich := (etaDot ! ich * exp (- dt8 * etaDot ! (ich + 1)) + etaDotDot ! ich * dt4)
                    * exp (- dt8 * etaDot ! (ich + 1))]"

text \<open>Step 1: from the outermost link inward, \<open>ich\<close> from \<open>numNHChains - 1\<close> down to \<open>0\<close>.\<close>

definition ref_step1 :: "real \<Rightarrow> real \<Rightarrow> nat \<Rightarrow> real list \<Rightarrow> real list \<Rightarrow> real list" where
  "ref_step1 dt4 dt8 n etaDotDot etaDot =
     fold (ref_half_kick dt4 dt8 etaDotDot) (rev [0..<n]) etaDot"

text \<open>Step 3: every \<open>eta[ich]\<close> advances by \<open>dt2 * etaDot[ich]\<close>.\<close>

definition ref_step3 :: "real \<Rightarrow> nat \<Rightarrow> real list \<Rightarrow> real list \<Rightarrow> real list" where
  "ref_step3 dt2 n etaDot e = map (\<lambda>ich. e ! ich + dt2 * etaDot ! ich) [0..<n] @ drop n e"

text \<open>
  Step 5 at one link: \<open>etaDotDot[ich]\<close> is recomputed, then the link gets its half-kick.
\<close>

definition ref_step5_link ::
  "real \<Rightarrow> real \<Rightarrow> real \<Rightarrow> real list \<Rightarrow> nat \<Rightarrow> real list \<times> real list
   \<Rightarrow> error + real list \<times> real list" where
  "ref_step5_link dt4 dt8 kT etaMass ich st =
     (case st of (etaDot, etaDotDot) \<Rightarrow>
        if etaMass ! ich = 0 then Inl DivisionByZero
        else
          (let etaDotDot' = etaDotDot[ich := (etaMass ! (ich - 1) * (etaDot ! (ich - 1))\<^sup>2 - kT)
                                              / etaMass ! ich]
           in Inr (ref_half_kick dt4 dt8 etaDotDot' ich etaDot, etaDotDot')))"

text \<open>A step applied along a list of links or iterations, stopping at the first error.\<close>

fun fold_err :: "('a \<Rightarrow> 's \<Rightarrow> error + 's) \<Rightarrow> 'a list \<Rightarrow> 's \<Rightarrow> error + 's" where
  "fold_err f [] st = Inr st"
| "fold_err f (x # xs) st = (case f x st of Inl err \<Rightarrow> Inl err | Inr st' \<Rightarrow> fold_err f xs st')"

text \<open>One sub-iteration of the specification: steps 1 to 5 in this order.\<close>

definition ref_sub_iteration ::
  "real \<Rightarrow> real \<Rightarrow> real \<Rightarrow> real \<Rightarrow> real list \<Rightarrow> nat \<Rightarrow> real \<Rightarrow> real
   \<Rightarrow> nh_chain \<times> real \<Rightarrow> error + nh_chain \<times> real" where
  "ref_sub_iteration dt2 dt4 dt8 kT etaMass n ke2 ke2_target st =
     (case st of (c, scale) \<Rightarrow>
        (let etaDot1 = ref_step1 dt4 dt8 n (eta_dotdot c) (eta_dot c);
             scale2 = scale * exp (- dt2 * etaDot1 ! 0);
             eta3 = ref_step3 dt2 n etaDot1 (eta c)
         in if etaMass ! 0 = 0 then Inl DivisionByZero
            else
              (let etaDotDot4 = (eta_dotdot c)[0 := (ke2 * scale2\<^sup>2 - ke2_target) / etaMass ! 0];
                   etaDot4 = ref_half_kick dt4 dt8 etaDotDot4 0 etaDot1
               in case fold_err (ref_step5_link dt4 dt8 kT etaMass) [1..<n] (etaDot4, etaDotDot4) of
                    Inl err \<Rightarrow> Inl err
                  | Inr (etaDot5, etaDotDot5) \<Rightarrow>
                      Inr (\<lparr>eta = eta3, eta_dot = etaDot5, eta_dotdot = etaDotDot5\<rparr>, scale2))))"

text \<open>
  The reference sequence: \<open>loopsPerStep\<close> sub-iterations with
  \<open>dt2 = stepSize / loopsPerStep / 2\<close>, \<open>dt4 = dt2 / 2\<close> and \<open>dt8 = dt4 / 2\<close>, from a chain and a
  scale factor.
\<close>

definition ref_sequence ::
  "real \<Rightarrow> real \<Rightarrow> int \<Rightarrow> int \<Rightarrow> real list \<Rightarrow> real \<Rightarrow> real \<Rightarrow> real
   \<Rightarrow> nh_chain \<times> real \<Rightarrow> error + nh_chain \<times> real" where
  "ref_sequence kb stepSize' loopsPerStep' numNHChains' etaMass ke2 ke2_target t_target st =
     (let dt2 = stepSize' / real_of_int loopsPerStep' / 2;
          dt4 = dt2 / 2;
          dt8 = dt4 / 2
      in fold_err
           (\<lambda>iloop. ref_sub_iteration dt2 dt4 dt8 (kb * t_target) etaMass (nat numNHChains')
                       ke2 ke2_target)
           [0..<nat loopsPerStep'] st)"

section \<open>The same code over doubles with infinities and NaN\<close>

text \<open>
  The embedding above ends a run at a division by zero. The C++ does not: the division
  yields an infinity or a NaN and the run goes on with it. For the properties that speak of
  such runs, \<^verbatim>\<open>propagateNHChain\<close> and the degree-of-freedom accounting are embedded a second
  time, statement by statement as before, over a type of doubles that has the two
  infinities and NaN. The names are those of the first embedding with the suffix \<open>_fp\<close>.
\<close>

subsection \<open>Double-precision values\<close>

text \<open>
  A double is a number, an infinity or NaN. The arithmetic is that of IEEE 754 on the
  special values: \<open>x / 0\<close> is the infinity of the sign of \<open>x\<close> and \<open>0 / 0\<close> is NaN,
  \<open>inf - inf\<close>, \<open>0 * inf\<close> and \<open>inf / inf\<close> are NaN, \<open>exp (- inf)\<close> is 0, every comparison with
  NaN is false, and a result beyond \<^verbatim>\<open>DBL_MAX\<close> in magnitude overflows to the infinity of its
  sign. Two things are left out: a result is not rounded (so nothing underflows, and the
  results that IEEE rounds down to \<^verbatim>\<open>DBL_MAX\<close> overflow here), and there is one zero, which
  divides like \<open>+0\<close>. The properties below are stated where this does not bear: they hold
  for every value, or the values they compute are exact zeros and ones, or they ask only
  whether a count is a NaN.
\<close>

datatype double = Finite real | PlusInfinity | MinusInfinity | NaN

text \<open>The largest finite double, \<open>(2 - 2^-52) * 2^1023\<close>.\<close>

definition DBL_MAX :: real where
  "DBL_MAX = (2 ^ 53 - 1) * 2 ^ 971"

definition overflow :: "real \<Rightarrow> double" where
  "overflow r =
     (if DBL_MAX < r then PlusInfinity
      else if r < - DBL_MAX then MinusInfinity
      else Finite r)"


text \<open>Unary minus, \<open>+\<close>, \<open>-\<close>, \<open>*\<close>, \<open>/\<close>, \<^verbatim>\<open>exp\<close>, \<open><\<close> and \<open><=\<close>.\<close>

fun fp_neg :: "double \<Rightarrow> double" where
  "fp_neg (Finite a) = Finite (- a)"
| "fp_neg PlusInfinity = MinusInfinity"
| "fp_neg MinusInfinity = PlusInfinity"
| "fp_neg NaN = NaN"

fun fp_add :: "double \<Rightarrow> double \<Rightarrow> double" where
  "fp_add (Finite a) (Finite b) = overflow (a + b)"
| "fp_add NaN y = NaN"
| "fp_add x NaN = NaN"
| "fp_add PlusInfinity MinusInfinity = NaN"
| "fp_add MinusInfinity PlusInfinity = NaN"
| "fp_add PlusInfinity y = PlusInfinity"
| "fp_add x PlusInfinity = PlusInfinity"
| "fp_add MinusInfinity y = MinusInfinity"
| "fp_add x MinusInfinity = MinusInfinity"

definition fp_sub :: "double \<Rightarrow> double \<Rightarrow> double" where
  "fp_sub x y = fp_add x (fp_neg y)"

fun fp_mul :: "double \<Rightarrow> double \<Rightarrow> double" where
  "fp_mul (Finite a) (Finite b) = overflow (a * b)"
| "fp_mul NaN y = NaN"
| "fp_mul x NaN = NaN"
| "fp_mul (Finite a) y = (if a = 0 then NaN else if 0 < a then y else fp_neg y)"
| "fp_mul x (Finite b) = (if b = 0 then NaN else if 0 < b then x else fp_neg x)"
| "fp_mul PlusInfinity y = y"
| "fp_mul MinusInfinity y = fp_neg y"

fun fp_div :: "double \<Rightarrow> double \<Rightarrow> double" where
  "fp_div (Finite a) (Finite b) =
     (if b = 0
      then (if a = 0 then NaN else if 0 < a then PlusInfinity else MinusInfinity)
      else overflow (a / b))"
| "fp_div NaN y = NaN"
| "fp_div x NaN = NaN"
| "fp_div (Finite a) y = Finite 0"
| "fp_div x (Finite b) = (if 0 \<le> b then x else fp_neg x)"
| "fp_div x y = NaN"

fun fp_exp :: "double \<Rightarrow> double" where
  "fp_exp (Finite a) = overflow (exp a)"
| "fp_exp PlusInfinity = PlusInfinity"
| "fp_exp MinusInfinity = Finite 0"
| "fp_exp NaN = NaN"

fun fp_less :: "double \<Rightarrow> double \<Rightarrow> bool" where
  "fp_less (Finite a) (Finite b) = (a < b)"
| "fp_less NaN y = False"
| "fp_less x NaN = False"
| "fp_less x MinusInfinity = False"
| "fp_less MinusInfinity y = True"
| "fp_less PlusInfinity y = False"
| "fp_less x PlusInfinity = True"

fun fp_le :: "double \<Rightarrow> double \<Rightarrow> bool" where
  "fp_le (Finite a) (Finite b) = (a \<le> b)"
| "fp_le NaN y = False"
| "fp_le x NaN = False"
| "fp_le MinusInfinity y = True"
| "fp_le x PlusInfinity = True"
| "fp_le x MinusInfinity = False"
| "fp_le PlusInfinity y = False"

subsection \<open>The Nose-Hoover chain over doubles\<close>

text \<open>
  \<^verbatim>\<open>propagateNHChain\<close> again: the same loops and the same statements in the same order, on
  doubles, with nothing that ends the run. The step size is the integrator's; the chain,
  the masses, the kinetic energies, the target temperature and \<open>BOLTZ\<close> are doubles.
\<close>

record nh_chain_fp =
  eta_fp :: "double list"
  eta_dot_fp :: "double list"
  eta_dotdot_fp :: "double list"

text \<open>\<^verbatim>\<open>for (int ich = numNHChains - 1; ich >= 0; ich--)\<close>, by the number of links left.\<close>

fun kick_inward_fp ::
  "double \<Rightarrow> double \<Rightarrow> double list \<Rightarrow> nat \<Rightarrow> double list \<times> double \<Rightarrow> double list \<times> double" where
  "kick_inward_fp dt4 dt8 edd 0 (ed, expfac) = (ed, expfac)"
| "kick_inward_fp dt4 dt8 edd (Suc ich) (ed, expfac) =
     (let expfac = fp_exp (fp_mul (fp_neg dt8) (ed ! (ich + 1)));
          ed = ed[ich := fp_mul (ed ! ich) expfac];
          ed = ed[ich := fp_add (ed ! ich) (fp_mul (edd ! ich) dt4)];
          ed = ed[ich := fp_mul (ed ! ich) expfac]
      in kick_inward_fp dt4 dt8 edd ich (ed, expfac))"

text \<open>\<^verbatim>\<open>for (int ich = 0; ich < numNHChains; ich++) eta[ich] += dt2 * eta_dot[ich];\<close>\<close>

definition advance_eta_fp :: "double \<Rightarrow> double list \<Rightarrow> nat \<Rightarrow> double list \<Rightarrow> double list" where
  "advance_eta_fp dt2 ed n e =
     fold (\<lambda>ich e. e[ich := fp_add (e ! ich) (fp_mul dt2 (ed ! ich))]) [0..<n] e"

text \<open>
  \<^verbatim>\<open>for (int ich = 1; ich < numNHChains; ich++)\<close>: the division by \<^verbatim>\<open>eta_mass[ich]\<close> is made
  whatever the mass.
\<close>

function kick_outward_fp ::
  "double \<Rightarrow> double \<Rightarrow> double \<Rightarrow> double list \<Rightarrow> nat \<Rightarrow> nat
   \<Rightarrow> double list \<times> double list \<times> double \<Rightarrow> double list \<times> double list \<times> double" where
  "kick_outward_fp dt4 dt8 kT mass n ich (ed, edd, expfac) =
     (if ich < n then
        (let expfac = fp_exp (fp_mul (fp_neg dt8) (ed ! (ich + 1)));
             ed = ed[ich := fp_mul (ed ! ich) expfac];
             edd = edd[ich := fp_div
                                (fp_sub (fp_mul (fp_mul (mass ! (ich - 1)) (ed ! (ich - 1)))
                                           (ed ! (ich - 1)))
                                   kT)
                                (mass ! ich)];
             ed = ed[ich := fp_add (ed ! ich) (fp_mul (edd ! ich) dt4)];
             ed = ed[ich := fp_mul (ed ! ich) expfac]
         in kick_outward_fp dt4 dt8 kT mass n (ich + 1) (ed, edd, expfac))
      else (ed, edd, expfac))"
  by pat_completeness auto
termination
  by (relation "measure (\<lambda>(dt4, dt8, kT, mass, n, ich, st). n - ich)") auto

text \<open>
  The body of the outer loop. \<^verbatim>\<open>eta_dotdot[0]\<close> is divided by \<^verbatim>\<open>eta_mass[0]\<close> with no guard,
  as in the code.
\<close>

definition sub_iteration_fp ::
  "double \<Rightarrow> double \<Rightarrow> double \<Rightarrow> double \<Rightarrow> double list \<Rightarrow> nat \<Rightarrow> double \<Rightarrow> double
   \<Rightarrow> nh_chain_fp \<times> double \<times> double \<Rightarrow> nh_chain_fp \<times> double \<times> double" where
  "sub_iteration_fp dt2 dt4 dt8 kT mass n ke2 ke2_target st =
     (case st of (c, expfac, factor) \<Rightarrow>
        (case kick_inward_fp dt4 dt8 (eta_dotdot_fp c) n (eta_dot_fp c, expfac) of
           (ed, expfac) \<Rightarrow>
             (let factor = fp_mul factor (fp_exp (fp_mul (fp_neg dt2) (ed ! 0)));
                  e = advance_eta_fp dt2 ed n (eta_fp c);
                  edd = (eta_dotdot_fp c)
                          [0 := fp_div (fp_sub (fp_mul (fp_mul ke2 factor) factor) ke2_target)
                                  (mass ! 0)];
                  ed = ed[0 := fp_mul (ed ! 0) expfac];
                  ed = ed[0 := fp_add (ed ! 0) (fp_mul (edd ! 0) dt4)];
                  ed = ed[0 := fp_mul (ed ! 0) expfac]
              in case kick_outward_fp dt4 dt8 kT mass n 1 (ed, edd, expfac) of
                   (ed, edd, expfac) \<Rightarrow>
                     (\<lparr>eta_fp = e, eta_dot_fp = ed, eta_dotdot_fp = edd\<rparr>, expfac, factor))))"

text \<open>\<^verbatim>\<open>for (int iloop = 0; iloop < loopsPerStep; iloop++)\<close>, by the number of iterations left.\<close>

fun nh_loop_fp ::
  "(nh_chain_fp \<times> double \<times> double \<Rightarrow> nh_chain_fp \<times> double \<times> double) \<Rightarrow> nat
   \<Rightarrow> nh_chain_fp \<times> double \<times> double \<Rightarrow> nh_chain_fp \<times> double \<times> double" where
  "nh_loop_fp body 0 st = st"
| "nh_loop_fp body (Suc k) st = nh_loop_fp body k (body st)"

text \<open>Every access of a call is inside its vector, as for the first embedding.\<close>

definition nh_in_bounds_fp :: "VVIntegrator \<Rightarrow> nh_chain_fp \<Rightarrow> double list \<Rightarrow> bool" where
  "nh_in_bounds_fp integrator c mass =
     (if loopsPerStep integrator \<le> 0
      then 1 \<le> length mass \<and>
           (if fp_less (Finite 0) (mass ! 0) then 1 \<le> length (eta_dotdot_fp c) else True)
      else 1 \<le> numNHChains integrator \<and>
           nat (numNHChains integrator) \<le> length (eta_fp c) \<and>
           nat (numNHChains integrator) + 1 \<le> length (eta_dot_fp c) \<and>
           nat (numNHChains integrator) \<le> length (eta_dotdot_fp c) \<and>
           nat (numNHChains integrator) \<le> length mass)"

text \<open>
  \<^verbatim>\<open>factor = 1.0\<close> and the guarded first value of \<^verbatim>\<open>eta_dotdot[0]\<close>; \<^verbatim>\<open>expfac\<close> starts at 0 and is
  assigned before it is read.
\<close>

definition nh_prologue_fp ::
  "nh_chain_fp \<Rightarrow> double list \<Rightarrow> double \<Rightarrow> double \<Rightarrow> nh_chain_fp \<times> double \<times> double" where
  "nh_prologue_fp c mass ke2 ke2_target =
     (let factor = Finite 1;
          c = (if fp_less (Finite 0) (mass ! 0)
               then c\<lparr>eta_dotdot_fp :=
                        (eta_dotdot_fp c)[0 := fp_div (fp_sub ke2 ke2_target) (mass ! 0)]\<rparr>
               else c)
      in (c, Finite 0, factor))"

text \<open>
  The call. An access outside a vector is still \<open>UndefinedBehaviour\<close>; within bounds the
  call returns the updated chain and \<^verbatim>\<open>factor\<close>. With \<^verbatim>\<open>loopsPerStep\<close> zero the step sizes
  are divisions by zero: infinities or NaN, which no statement reads.
\<close>

definition propagateNHChain_fp ::
  "double \<Rightarrow> VVIntegrator \<Rightarrow> nh_chain_fp \<Rightarrow> double list \<Rightarrow> double \<Rightarrow> double \<Rightarrow> double
   \<Rightarrow> error + nh_chain_fp \<times> double" where
  "propagateNHChain_fp BOLTZ integrator c mass ke2 ke2_target t_target =
     (if \<not> nh_in_bounds_fp integrator c mass then Inl UndefinedBehaviour
      else
        (let dt2 = fp_div (fp_div (Finite (stepSize integrator))
                             (Finite (real_of_int (loopsPerStep integrator))))
                     (Finite 2);
             dt4 = fp_div dt2 (Finite 2);
             dt8 = fp_div dt4 (Finite 2)
         in case nh_loop_fp
                   (sub_iteration_fp dt2 dt4 dt8 (fp_mul BOLTZ t_target) mass
                      (nat (numNHChains integrator)) ke2 ke2_target)
                   (nat (loopsPerStep integrator))
                   (nh_prologue_fp c mass ke2 ke2_target) of
              (c', expfac, factor) \<Rightarrow> Inr (c', factor)))"

text \<open>
  What a call leaves alone in a chain of \<open>n\<close> links: the lengths of the three vectors, and
  every entry from index \<open>n\<close> on, among them the terminator \<^verbatim>\<open>eta_dot[n]\<close>.
\<close>

definition nh_frame_fp :: "nat \<Rightarrow> nh_chain_fp \<Rightarrow> nh_chain_fp \<Rightarrow> bool" where
  "nh_frame_fp n c c' =
     (length (eta_fp c') = length (eta_fp c) \<and>
      length (eta_dot_fp c') = length (eta_dot_fp c) \<and>
      length (eta_dotdot_fp c') = length (eta_dotdot_fp c) \<and>
      (\<forall>j\<ge>n. eta_fp c' ! j = eta_fp c ! j \<and> eta_dot_fp c' ! j = eta_dot_fp c ! j \<and>
             eta_dotdot_fp c' ! j = eta_dotdot_fp c ! j))"

subsection \<open>Degrees of freedom over doubles\<close>

text \<open>
  The accounting again, with the counts as doubles. The particle masses are the numbers of
  the system; an inverse residue mass is the number the integrator holds, or plus infinity
  where it holds \<^verbatim>\<open>1.0/0\<close> (the residue masses are sums that start at \<open>+0\<close>, so a zero sum is
  \<open>+0\<close> and its inverse is \<open>+inf\<close>).
\<close>

definition inverse_mass_fp :: "real option \<Rightarrow> double" where
  "inverse_mass_fp w = (case w of None \<Rightarrow> PlusInfinity | Some v \<Rightarrow> Finite v)"

text \<open>
  The loop over the particles: \<^verbatim>\<open>tempGroupDof[TG_ATOM] -= 3 * mass * resInvMass\<close> is computed
  whatever the inverse mass.
\<close>

fun dof_particles_fp ::
  "System \<Rightarrow> VVIntegrator \<Rightarrow> int list \<Rightarrow> double list \<Rightarrow> error + double list" where
  "dof_particles_fp sys integrator [] dof = Inr dof"
| "dof_particles_fp sys integrator (i # rest) dof =
     (case getParticleResId integrator i of
        Inl e \<Rightarrow> Inl e
      | Inr resid \<Rightarrow>
          (let mass = particleMasses sys ! nat i
           in case getResInvMass integrator resid of
                Inl e \<Rightarrow> Inl e
              | Inr resInvMass \<Rightarrow>
                  (if isParticleNH integrator i \<and> mass \<noteq> 0 then
                     (let dof1 = dof[TG_ATOM := fp_add (dof ! TG_ATOM) (Finite 3)]
                      in if useCOMTempGroup integrator then
                           dof_particles_fp sys integrator rest
                             (dof1[TG_ATOM :=
                                fp_sub (dof1 ! TG_ATOM)
                                  (fp_mul (fp_mul (Finite 3) (Finite mass))
                                     (inverse_mass_fp resInvMass))])
                         else dof_particles_fp sys integrator rest dof1)
                   else dof_particles_fp sys integrator rest dof)))"

text \<open>The loops over the Drude pairs, the constraints and the forces.\<close>

fun dof_drude_fp :: "VVIntegrator \<Rightarrow> (int \<times> int) list \<Rightarrow> double list \<Rightarrow> double list" where
  "dof_drude_fp integrator [] dof = dof"
| "dof_drude_fp integrator ((p, p1) # rest) dof =
     (if isParticleNH integrator p then
        (let dof1 = dof[TG_ATOM := fp_sub (dof ! TG_ATOM) (Finite 3)];
             dof2 = dof1[TG_DRUDE := fp_add (dof1 ! TG_DRUDE) (Finite 3)]
         in dof_drude_fp integrator rest dof2)
      else dof_drude_fp integrator rest dof)"

fun dof_constraints_fp ::
  "VVIntegrator \<Rightarrow> (int \<times> int \<times> real) list \<Rightarrow> double list \<Rightarrow> double list" where
  "dof_constraints_fp integrator [] dof = dof"
| "dof_constraints_fp integrator ((p, p1, distance) # rest) dof =
     (if isParticleNH integrator p
      then dof_constraints_fp integrator rest (dof[TG_ATOM := fp_sub (dof ! TG_ATOM) (Finite 1)])
      else dof_constraints_fp integrator rest dof)"

fun dof_cmmotion_fp :: "VVIntegrator \<Rightarrow> force list \<Rightarrow> double list \<Rightarrow> double list" where
  "dof_cmmotion_fp integrator [] dof = dof"
| "dof_cmmotion_fp integrator (CMMotionRemover # fs) dof =
     (if useCOMTempGroup integrator then dof[TG_COM := fp_sub (dof ! TG_COM) (Finite 3)]
      else dof[TG_ATOM := fp_sub (dof ! TG_ATOM) (Finite 3)])"
| "dof_cmmotion_fp integrator (f # fs) dof = dof_cmmotion_fp integrator fs dof"

text \<open>
  \<^verbatim>\<open>std::max(a, b)\<close> is \<^verbatim>\<open>(a < b) ? b : a\<close>: of a NaN and 0 it returns the NaN, since the
  comparison is false.
\<close>

definition std_max_fp :: "double \<Rightarrow> double \<Rightarrow> double" where
  "std_max_fp a b = (if fp_less a b then b else a)"

text \<open>
  The accounting. \<^verbatim>\<open>3 * residuesNHVec.size()\<close> is a product of integers, converted to a
  double when it is stored.
\<close>

definition tempGroupDof_fp ::
  "System \<Rightarrow> VVIntegrator \<Rightarrow> (int \<times> int) list option \<Rightarrow> error + double list" where
  "tempGroupDof_fp sys integrator force =
     (case dof_particles_fp sys integrator (map int [0..<getNumParticles sys])
             (replicate NUM_TG (Finite 0)) of
        Inl e \<Rightarrow> Inl e
      | Inr dof1 \<Rightarrow>
          (let dof2 = (case force of None \<Rightarrow> dof1
                       | Some pairs \<Rightarrow> dof_drude_fp integrator pairs dof1);
               dof3 = dof_constraints_fp integrator (constraints sys) dof2;
               dof4 = (if useCOMTempGroup integrator
                       then dof3[TG_COM := Finite (real (3 * length (residuesNH integrator)))]
                       else dof3);
               dof5 = dof_cmmotion_fp integrator (forces sys) dof4
           in Inr (map (\<lambda>d. std_max_fp d (Finite 0)) dof5)))"

text \<open>
  The particle masses are in range: none is negative, and \<^verbatim>\<open>3 * mass\<close> does not overflow.
  The inverse residue masses are not negative; \<^verbatim>\<open>VVIntegrator::initialize\<close> builds them so
  from masses that are not negative.
\<close>

definition masses_in_range :: "System \<Rightarrow> bool" where
  "masses_in_range sys = list_all (\<lambda>m. 0 \<le> m \<and> 3 * m \<le> DBL_MAX) (particleMasses sys)"

definition inverse_masses_nonneg :: "VVIntegrator \<Rightarrow> bool" where
  "inverse_masses_nonneg integrator =
     list_all (\<lambda>w. case w of None \<Rightarrow> True | Some v \<Rightarrow> 0 \<le> v) (residueInvMasses integrator)"

text \<open>
  Two notions for the proofs: a count that is minus infinity or a number at most \<open>B\<close> (so
  neither NaN nor plus infinity), and a count that is not NaN.
\<close>

fun below :: "real \<Rightarrow> double \<Rightarrow> bool" where
  "below B (Finite a) = (a \<le> B)"
| "below B MinusInfinity = True"
| "below B x = False"

fun not_NaN :: "double \<Rightarrow> bool" where
  "not_NaN NaN = False"
| "not_NaN x = True"

section \<open>Properties\<close>

subsection \<open>Image pairs\<close>

lemma size_to_int_small: "n < 2 ^ 31 \<Longrightarrow> size_to_int n = int n"
  unfolding size_to_int_def
  by (simp add: signed_of_nat signed_take_bit_int_eq_self)

lemma addImagePair_calls_length: "length (fst (addImagePair_calls cs s)) = length cs"
  by (induction cs s rule: addImagePair_calls.induct)
     (auto simp add: addImagePair_def Let_def split: prod.splits)

lemma addImagePair_calls_nth:
  "k < length cs \<Longrightarrow>
   fst (addImagePair_calls cs s) ! k = size_to_int (length (imagePairs s) + k + 1)"
proof (induction cs arbitrary: s k)
  case Nil
  then show ?case by simp
next
  case (Cons c cs)
  obtain img parent where c: "c = (img, parent)" by (cases c)
  show ?case
  proof (cases k)
    case 0
    then show ?thesis by (simp add: c addImagePair_def Let_def split: prod.splits)
  next
    case (Suc j)
    with Cons.prems have j: "j < length cs" by simp
    show ?thesis
      using Cons.IH [OF j, of "snd (addImagePair img parent s)"] Suc
      by (auto simp add: c addImagePair_def Let_def split: prod.splits)
  qed
qed

lemma imagePairs_new [simp]: "imagePairs (VVIntegrator_new t f dt df h nch loops com) = []"
  by (simp add: VVIntegrator_new_def)

text \<open>
  Claim C8, as the code has it. On a freshly constructed integrator the calls of a
  sequence of fewer than \<open>2^31\<close> registrations return 1, 2, 3, ... in registration order:
  the \<open>k\<close>-th call returns \<open>k\<close>. The bound is the range of the \<^verbatim>\<open>int\<close> that
  \<^verbatim>\<open>addImagePair\<close> returns.
\<close>

theorem addImagePair_returns_count:
  assumes "length cs < 2 ^ 31"
  shows "fst (addImagePair_calls cs (VVIntegrator_new t f dt df h nch loops com))
         = map int [1..<Suc (length cs)]"
proof (rule nth_equalityI)
  show "length (fst (addImagePair_calls cs (VVIntegrator_new t f dt df h nch loops com)))
        = length (map int [1..<Suc (length cs)])"
    by (simp add: addImagePair_calls_length del: upt_Suc)
next
  fix k
  assume "k < length (fst (addImagePair_calls cs (VVIntegrator_new t f dt df h nch loops com)))"
  then have k: "k < length cs" by (simp add: addImagePair_calls_length)
  with assms have "Suc k < 2 ^ 31" by simp
  then have "size_to_int (Suc k) = int (Suc k)" by (rule size_to_int_small)
  moreover have "map int [1..<Suc (length cs)] ! k = int (Suc k)"
    using k by (simp add: nth_map_upt del: upt_Suc)
  ultimately show "fst (addImagePair_calls cs (VVIntegrator_new t f dt df h nch loops com)) ! k
        = map int [1..<Suc (length cs)] ! k"
    using addImagePair_calls_nth [OF k, of "VVIntegrator_new t f dt df h nch loops com"]
    by simp
qed

theorem addImagePair_returns_count_witness:
  "fst (addImagePair_calls [(5, 1), (6, 2), (7, 3)] (VVIntegrator_new 300 1 1 1 1 1 1 False))
   = [1, 2, 3]"
  using addImagePair_returns_count [of "[(5, 1), (6, 2), (7, 3)]" 300 1 1 1 1 1 1 False]
  by (simp add: upt_rec)

text \<open>
  The claim as stated fails at the \<open>2^31\<close>-th call: with 2147483648 pairs registered the
  size no longer fits the returned \<^verbatim>\<open>int\<close>, and the call returns \<open>-2147483648\<close>.
\<close>

theorem addImagePair_count_wraps:
  "fst (addImagePair_calls (replicate 2147483648 (0, 0))
          (VVIntegrator_new 300 1 1 1 1 1 1 False)) ! 2147483647 = - 2147483648"
proof -
  have "(2147483647::nat) < length (replicate 2147483648 ((0, 0)::int \<times> int))" by simp
  from addImagePair_calls_nth [OF this, of "VVIntegrator_new 300 1 1 1 1 1 1 False"]
  show ?thesis by (simp add: size_to_int_def)
qed

subsection \<open>Binding\<close>

lemma find_drude_error: "find_drude fs f = Inl e \<Longrightarrow> e = MultipleForceDefinition"
  by (induction fs f rule: find_drude.induct) (auto split: if_splits)

lemma assign_molecule_error: "assign_molecule i m tab = Inl e \<Longrightarrow> e = UndefinedBehaviour"
  by (induction i m tab rule: assign_molecule.induct) (auto split: if_splits)

lemma assign_molecules_error: "assign_molecules i ms tab = Inl e \<Longrightarrow> e = UndefinedBehaviour"
  by (induction i ms tab rule: assign_molecules.induct)
     (auto split: sum.splits dest: assign_molecule_error)

lemma add_masses_error: "add_masses rs rm = Inl e \<Longrightarrow> e = UndefinedBehaviour"
  by (induction rs rm rule: add_masses.induct) (auto split: if_splits)

lemma getParticleResId_error: "getParticleResId s i = Inl e \<Longrightarrow> e = AssertionFailure"
  by (simp add: getParticleResId_def split: if_splits)

lemma classify_NH_error: "classify_NH ps s = Inl e \<Longrightarrow> e = AssertionFailure"
proof (induction ps s rule: classify_NH.induct)
  case (1 s)
  then show ?case by simp
next
  case (2 i rest s)
  show ?case
  proof (cases "\<not> isParticleLD s i \<and> \<not> isParticleImage s i")
    case False
    with 2 show ?thesis by simp
  next
    case True
    define s1 where "s1 = s\<lparr>particlesNH := particlesNH s @ [i]\<rparr>"
    show ?thesis
    proof (cases "getParticleResId s1 i")
      case (Inl e')
      with True "2.prems" getParticleResId_error [OF Inl] show ?thesis
        by (simp add: s1_def Let_def)
    next
      case (Inr r)
      show ?thesis
      proof (cases "r \<in> set (residuesNH s1)")
        case in_set: True
        from True Inr in_set "2.prems" have "classify_NH rest s1 = Inl e"
          by (simp add: Let_def s1_def)
        with "2.IH"(1) [OF True s1_def Inr in_set]
        show ?thesis by simp
      next
        case not_in: False
        from True Inr not_in "2.prems"
        have "classify_NH rest (s1\<lparr>residuesNH := residuesNH s1 @ [r]\<rparr>) = Inl e"
          by (simp add: Let_def s1_def)
        with "2.IH"(2) [OF True s1_def Inr not_in] show ?thesis by simp
      qed
    qed
  qed
qed

lemma check_LD_error:
  "check_LD ps s = Inl e \<Longrightarrow> e = AssertionFailure \<or> e = NHLangevinConflict"
proof (induction ps s rule: check_LD.induct)
  case (1 s)
  then show ?case by simp
next
  case (2 i rest s)
  show ?case
  proof (cases "isParticleLD s i")
    case False
    with 2 show ?thesis by simp
  next
    case True
    show ?thesis
    proof (cases "getParticleResId s i")
      case (Inl e')
      with True "2.prems" getParticleResId_error [OF Inl] show ?thesis by simp
    next
      case (Inr r)
      with True 2 show ?thesis by (cases "r \<in> set (residuesNH s)") simp_all
    qed
  qed
qed

lemma build_tables_error: "build_tables c s = Inl e \<Longrightarrow> e = UndefinedBehaviour"
  by (auto simp: build_tables_def Let_def split: sum.splits
           dest: assign_molecules_error add_masses_error)

lemma classify_error:
  "classify c s = Inl e \<Longrightarrow> e = AssertionFailure \<or> e = NHLangevinConflict"
  by (auto simp: classify_def Let_def split: sum.splits
           dest: classify_NH_error check_LD_error)

lemma BindingConflict_distinct:
  "MultipleForceDefinition \<noteq> BindingConflict" "COMWithoutDrude \<noteq> BindingConflict"
  "NHLangevinConflict \<noteq> BindingConflict" "LangevinPerturbationConflict \<noteq> BindingConflict"
  "UndefinedBehaviour \<noteq> BindingConflict" "AssertionFailure \<noteq> BindingConflict"
  "BindingConflict \<noteq> MultipleForceDefinition" "BindingConflict \<noteq> COMWithoutDrude"
  "BindingConflict \<noteq> NHLangevinConflict" "BindingConflict \<noteq> LangevinPerturbationConflict"
  "BindingConflict \<noteq> UndefinedBehaviour" "BindingConflict \<noteq> AssertionFailure"
  by (simp_all add: BindingConflict_def MultipleForceDefinition_def COMWithoutDrude_def
        NHLangevinConflict_def LangevinPerturbationConflict_def)

text \<open>What is left of \<^verbatim>\<open>initialize\<close> once the owner check has passed.\<close>

lemma initialize_after_owner_check:
  assumes "owner s = None \<or> owner s = Some (contextOwner c)"
  shows "initialize c s =
        (case find_drude (forces (system c)) None of
           Inl e \<Rightarrow> Inl e
         | Inr force \<Rightarrow>
             (if force = None \<and> useCOMTempGroup s then Inl COMWithoutDrude
              else
                (case build_tables c s of
                   Inl e \<Rightarrow> Inl e
                 | Inr s1 \<Rightarrow>
                     (case classify c s1 of
                        Inl e \<Rightarrow> Inl e
                      | Inr s2 \<Rightarrow>
                          (if particlesLD s2 \<noteq> [] \<and> cosAcceleration s2 \<noteq> 0
                           then Inl LangevinPerturbationConflict
                           else Inr (bind_context c s2))))))"
proof -
  from assms have "\<not> (owner s \<noteq> None \<and> Some (contextOwner c) \<noteq> owner s)" by auto
  then show ?thesis unfolding initialize_def by (simp only: if_False)
qed

lemma initialize_owner_passes:
  assumes "owner s = None \<or> owner s = Some (contextOwner c)"
  shows "initialize c s \<noteq> Inl BindingConflict"
proof
  assume "initialize c s = Inl BindingConflict"
  then have a: "(case find_drude (forces (system c)) None of
           Inl e \<Rightarrow> Inl e
         | Inr force \<Rightarrow>
             (if force = None \<and> useCOMTempGroup s then Inl COMWithoutDrude
              else
                (case build_tables c s of
                   Inl e \<Rightarrow> Inl e
                 | Inr s1 \<Rightarrow>
                     (case classify c s1 of
                        Inl e \<Rightarrow> Inl e
                      | Inr s2 \<Rightarrow>
                          (if particlesLD s2 \<noteq> [] \<and> cosAcceleration s2 \<noteq> 0
                           then Inl LangevinPerturbationConflict
                           else Inr (bind_context c s2)))))) = Inl BindingConflict"
    by (simp only: initialize_after_owner_check [OF assms])
  show False
  proof (cases "find_drude (forces (system c)) None")
    case (Inl e)
    with a find_drude_error [OF Inl] show False
      by (simp add: BindingConflict_distinct)
  next
    case (Inr force)
    show False
    proof (cases "force = None \<and> useCOMTempGroup s")
      case True
      with a Inr show False by (simp add: BindingConflict_distinct)
    next
      case nocom: False
      show False
      proof (cases "build_tables c s")
        case (Inl e)
        with a Inr nocom build_tables_error [OF Inl] show False
          by (simp add: BindingConflict_distinct)
      next
        case s1: (Inr s1)
        show False
        proof (cases "classify c s1")
          case (Inl e)
          with a Inr nocom s1 classify_error [OF Inl] show False
            by (auto simp add: BindingConflict_distinct)
        next
          case s2: (Inr s2)
          with a Inr nocom s1 show False
            by (auto simp add: BindingConflict_distinct split: if_splits)
        qed
      qed
    qed
  qed
qed

text \<open>
  Claim C10. \<^verbatim>\<open>initialize\<close> raises the binding conflict exactly when the integrator has an
  owner and the owner of the new context is another one. So on an integrator that is
  already bound, \<^verbatim>\<open>initialize\<close> with a context of the same owner does not raise it.
\<close>

theorem initialize_BindingConflict_iff:
  "initialize c s = Inl BindingConflict
   \<longleftrightarrow> (owner s \<noteq> None \<and> owner s \<noteq> Some (contextOwner c))"
proof
  assume a: "initialize c s = Inl BindingConflict"
  have "\<not> (owner s = None \<or> owner s = Some (contextOwner c))"
  proof
    assume "owner s = None \<or> owner s = Some (contextOwner c)"
    from initialize_owner_passes [OF this] a show False by simp
  qed
  then show "owner s \<noteq> None \<and> owner s \<noteq> Some (contextOwner c)" by simp
next
  assume "owner s \<noteq> None \<and> owner s \<noteq> Some (contextOwner c)"
  then have "(owner s \<noteq> None \<and> Some (contextOwner c) \<noteq> owner s) = True" by auto
  then show "initialize c s = Inl BindingConflict"
    unfolding initialize_def by (simp only: if_True)
qed

text \<open>
  An integrator bound by the context owner 1: a context of owner 2 is refused, a context
  of owner 1 is not.
\<close>

theorem initialize_BindingConflict_iff_witness:
  "initialize
     \<lparr>address = 10, contextOwner = 2,
      system = \<lparr>particleMasses = [1], constraints = [], forces = []\<rparr>, molecules = [[0]]\<rparr>
     ((VVIntegrator_new 300 1 1 1 1 1 1 False)\<lparr>owner := Some 1\<rparr>) = Inl BindingConflict
   \<and> initialize
     \<lparr>address = 11, contextOwner = 1,
      system = \<lparr>particleMasses = [1], constraints = [], forces = []\<rparr>, molecules = [[0]]\<rparr>
     ((VVIntegrator_new 300 1 1 1 1 1 1 False)\<lparr>owner := Some 1\<rparr>) \<noteq> Inl BindingConflict"
  using initialize_BindingConflict_iff
          [of "\<lparr>address = 10, contextOwner = 2,
                system = \<lparr>particleMasses = [1], constraints = [], forces = []\<rparr>,
                molecules = [[0]]\<rparr>"
              "(VVIntegrator_new 300 1 1 1 1 1 1 False)\<lparr>owner := Some 1\<rparr>"]
        initialize_BindingConflict_iff
          [of "\<lparr>address = 11, contextOwner = 1,
                system = \<lparr>particleMasses = [1], constraints = [], forces = []\<rparr>,
                molecules = [[0]]\<rparr>"
              "(VVIntegrator_new 300 1 1 1 1 1 1 False)\<lparr>owner := Some 1\<rparr>"]
  by (simp add: VVIntegrator_new_def)

subsection \<open>Stepping\<close>

declare step_loop.simps [simp del]

lemma step_loop_fold:
  "0 \<le> i \<Longrightarrow>
   step_loop upd i steps st = fold (\<lambda>k. step_body (upd k)) [nat i..<nat steps] st"
proof (induction upd i steps st rule: step_loop.induct)
  case (1 upd i steps st)
  show ?case
  proof (cases "i < steps")
    case True
    have a: "nat i < nat steps" using True "1.prems" by simp
    have b: "Suc (nat i) = nat (i + 1)" using "1.prems" by simp
    have c: "[nat i..<nat steps] = nat i # [nat (i + 1)..<nat steps]"
      using upt_conv_Cons [OF a] by (simp only: b)
    have d: "step_loop upd (i + 1) steps (step_body (upd (nat i)) st) =
          fold (\<lambda>k. step_body (upd k)) [nat (i + 1)..<nat steps] (step_body (upd (nat i)) st)"
      using "1.IH" [OF True] "1.prems" by simp
    show ?thesis
      by (subst step_loop.simps) (simp only: True if_True d c fold_simps)
  next
    case False
    then show ?thesis using "1.prems" by (subst step_loop.simps) simp
  qed
qed

lemma filter_call_if:
  "\<not> is_FirstIntegrate c \<Longrightarrow> filter is_FirstIntegrate (call_if b c) = []"
  by (simp add: call_if_def)

lemma thermostat_calls_no_integrate: "filter is_FirstIntegrate (thermostat_calls s) = []"
  by (simp add: thermostat_calls_def filter_call_if)

lemma step_body_one_integrate:
  "length (filter is_FirstIntegrate (snd (step_body b st)))
   = Suc (length (filter is_FirstIntegrate (snd st)))"
  by (simp add: step_body_def Let_def thermostat_calls_no_integrate filter_call_if)

lemma fold_step_body_integrates:
  "length (filter is_FirstIntegrate (snd (fold (\<lambda>k. step_body (upd k)) ks st)))
   = length (filter is_FirstIntegrate (snd st)) + length ks"
  by (induction ks arbitrary: st) (simp_all add: step_body_one_integrate)

text \<open>
  Claim C6. On an integrator that is bound to no context, \<^verbatim>\<open>step(n)\<close> fails with the
  unbound-usage error for every \<open>n\<close>: no call is made and no state is returned. On a bound
  integrator it returns the state reached by running the body of the loop for the
  iterations \<open>0, ..., n - 1\<close> in turn, which makes exactly \<open>n\<close> calls of \<^verbatim>\<open>firstIntegrate\<close>
  (none when \<open>n\<close> is negative).
\<close>

theorem step_unbound_fails_bound_runs:
  "(ctx s = None \<longrightarrow> step upd n (s, tr) = Inl UnboundUsage) \<and>
   (ctx s \<noteq> None \<longrightarrow>
      step upd n (s, tr) = Inr (fold (\<lambda>i. step_body (upd i)) [0..<nat n] (s, tr)) \<and>
      length (filter is_FirstIntegrate
                (snd (fold (\<lambda>i. step_body (upd i)) [0..<nat n] (s, tr))))
      = length (filter is_FirstIntegrate tr) + nat n)"
proof (intro conjI impI)
  assume "ctx s = None"
  then show "step upd n (s, tr) = Inl UnboundUsage" by (simp add: step_def)
next
  assume "ctx s \<noteq> None"
  then show "step upd n (s, tr) = Inr (fold (\<lambda>i. step_body (upd i)) [0..<nat n] (s, tr))"
    using step_loop_fold [of 0 upd n "(s, tr)"] by (simp add: step_def)
next
  show "length (filter is_FirstIntegrate
                (snd (fold (\<lambda>i. step_body (upd i)) [0..<nat n] (s, tr))))
      = length (filter is_FirstIntegrate tr) + nat n"
    by (simp add: fold_step_body_integrates)
qed

text \<open>
  Two steps on an integrator with no thermostatted, image or electrolyte particle: unbound
  it fails; bound, it makes the calls of two full steps, the forces being computed once
  more in the first.
\<close>

theorem step_unbound_fails_bound_runs_witness:
  "step (\<lambda>i. False) 2 (VVIntegrator_new 300 1 1 1 1 1 1 False, []) = Inl UnboundUsage \<and>
   (\<exists>s'. step (\<lambda>i. False) 2 ((VVIntegrator_new 300 1 1 1 1 1 1 False)\<lparr>ctx := Some 7\<rparr>, [])
          = Inr (s', [UpdateContextState, CalcForcesAndEnergy, FirstIntegrate True,
                      CalcForcesAndEnergy, SecondIntegrate True,
                      UpdateContextState, FirstIntegrate True,
                      CalcForcesAndEnergy, SecondIntegrate True]))"
  using step_unbound_fails_bound_runs
          [of "VVIntegrator_new 300 1 1 1 1 1 1 False" "\<lambda>i. False" 2 "[]"]
        step_unbound_fails_bound_runs
          [of "(VVIntegrator_new 300 1 1 1 1 1 1 False)\<lparr>ctx := Some 7\<rparr>" "\<lambda>i. False" 2 "[]"]
  by (simp add: step_body_def VVIntegrator_new_def Let_def call_if_def thermostat_calls_def
        upt_rec)

subsection \<open>Degrees of freedom\<close>

lemma tables_cover_lookup:
  assumes "tables_cover sys I" "k < getNumParticles sys"
  shows "\<exists>r w. getParticleResId I (int k) = Inr r \<and> getResInvMass I r = Inr w \<and>
               w = residueInvMasses I ! nat r \<and> nat r < length (residueInvMasses I)"
proof -
  from assms have len: "k < length (particleResId I)" by (simp add: tables_cover_def)
  from assms have "list_all (\<lambda>r. 0 \<le> r \<and> r < int (length (residueInvMasses I)))
        (take (getNumParticles sys) (particleResId I))" by (simp add: tables_cover_def)
  then have "\<forall>j < length (take (getNumParticles sys) (particleResId I)).
       0 \<le> take (getNumParticles sys) (particleResId I) ! j \<and>
       take (getNumParticles sys) (particleResId I) ! j < int (length (residueInvMasses I))"
    by (simp add: list_all_length)
  with assms(2) len have r: "0 \<le> particleResId I ! k \<and> particleResId I ! k < int (length (residueInvMasses I))"
    by simp
  then have "nat (particleResId I ! k) < length (residueInvMasses I)" by linarith
  with len r show ?thesis by (simp add: getParticleResId_def getResInvMass_def)
qed

lemma dof_particles_length:
  "dof_particles sys I ps dof = Inr dof' \<Longrightarrow> length dof' = length dof"
proof (induction ps arbitrary: dof)
  case Nil
  then show ?case by simp
next
  case (Cons i rest)
  then show ?case
    by (auto simp: Let_def split: sum.splits if_splits option.splits)
qed

lemma dof_drude_length: "length (dof_drude I pairs dof) = length dof"
  by (induction I pairs dof rule: dof_drude.induct) (simp_all add: Let_def)

lemma dof_constraints_length: "length (dof_constraints I cs dof) = length dof"
  by (induction I cs dof rule: dof_constraints.induct) simp_all

lemma dof_cmmotion_length: "length (dof_cmmotion I fs dof) = length dof"
  by (induction I fs dof rule: dof_cmmotion.induct) simp_all

lemma dof_particles_noCOM:
  assumes "tables_cover sys I" "\<not> useCOMTempGroup I" "\<forall>i \<in> set ks. i < getNumParticles sys"
    "TG_ATOM < length dof"
  shows "dof_particles sys I (map int ks) dof =
     Inr (dof[TG_ATOM := dof ! TG_ATOM
            + 3 * real (length (filter (\<lambda>k. isParticleNH I (int k) \<and> particleMasses sys ! k \<noteq> 0) ks))])"
  using assms(3,4)
proof (induction ks arbitrary: dof)
  case Nil
  then show ?case by simp
next
  case (Cons k ks)
  then have k: "k < getNumParticles sys" by simp
  from tables_cover_lookup [OF assms(1) k] obtain r w where
    r: "getParticleResId I (int k) = Inr r" and w: "getResInvMass I r = Inr w" by blast
  show ?case
  proof (cases "isParticleNH I (int k) \<and> particleMasses sys ! k \<noteq> 0")
    case True
    have "dof_particles sys I (map int (k # ks)) dof
        = dof_particles sys I (map int ks) (dof[TG_ATOM := dof ! TG_ATOM + 3])"
      using True r w assms(2) by (simp add: Let_def)
    also have "\<dots> = Inr ((dof[TG_ATOM := dof ! TG_ATOM + 3])[TG_ATOM := (dof[TG_ATOM := dof ! TG_ATOM + 3]) ! TG_ATOM
            + 3 * real (length (filter (\<lambda>k. isParticleNH I (int k) \<and> particleMasses sys ! k \<noteq> 0) ks))])"
      using Cons.prems by (intro Cons.IH) simp_all
    finally show ?thesis using True Cons.prems(2) by (simp add: algebra_simps)
  next
    case False
    have "dof_particles sys I (map int (k # ks)) dof = dof_particles sys I (map int ks) dof"
      using False r w by (auto simp add: Let_def)
    also have "\<dots> = Inr (dof[TG_ATOM := dof ! TG_ATOM
            + 3 * real (length (filter (\<lambda>k. isParticleNH I (int k) \<and> particleMasses sys ! k \<noteq> 0) ks))])"
      using Cons.prems by (intro Cons.IH) simp_all
    finally have e: "dof_particles sys I (map int (k # ks)) dof = Inr (dof[TG_ATOM := dof ! TG_ATOM
            + 3 * real (length (filter (\<lambda>k. isParticleNH I (int k) \<and> particleMasses sys ! k \<noteq> 0) ks))])" .
    have flt: "filter (\<lambda>k. isParticleNH I (int k) \<and> particleMasses sys ! k \<noteq> 0) (k # ks)
        = filter (\<lambda>k. isParticleNH I (int k) \<and> particleMasses sys ! k \<noteq> 0) ks"
      using False by simp
    show ?thesis by (simp only: e flt)
  qed
qed

lemma dof_cmmotion_absent: "CMMotionRemover \<notin> set fs \<Longrightarrow> dof_cmmotion I fs dof = dof"
  by (induction I fs dof rule: dof_cmmotion.induct) simp_all

text \<open>
  Claim C3. With no Drude pair, no constraint, centre-of-mass grouping off, no
  \<^verbatim>\<open>CMMotionRemover\<close> among the forces and every Nose-Hoover particle massive, the
  accounting gives the Atom group exactly \<open>3 N\<close> degrees of freedom, \<open>N\<close> the number of
  Nose-Hoover particles of the system.
\<close>

theorem tempGroupDof_atom_3N:
  assumes "tables_cover sys I" "\<not> useCOMTempGroup I" "force = None \<or> force = Some []"
    "constraints sys = []" "CMMotionRemover \<notin> set (forces sys)"
    "\<forall>k < getNumParticles sys. isParticleNH I (int k) \<longrightarrow> particleMasses sys ! k \<noteq> 0"
  shows "\<exists>dof. tempGroupDof sys I force = Inr dof \<and> dof ! TG_ATOM = 3 * real (numParticlesNH sys I)"
proof -
  let ?n = "getNumParticles sys"
  have f: "filter (\<lambda>k. isParticleNH I (int k) \<and> particleMasses sys ! k \<noteq> 0) [0..<?n]
         = filter (\<lambda>k. isParticleNH I (int k)) [0..<?n]"
    using assms(6) by (intro filter_cong) auto
  have cnt: "length (filter (\<lambda>k. isParticleNH I (int k)) [0..<?n]) = numParticlesNH sys I"
    by (simp add: numParticlesNH_def filter_map comp_def)
  have d1: "dof_particles sys I (map int [0..<?n]) (replicate NUM_TG 0)
     = Inr ((replicate NUM_TG 0)[TG_ATOM := 3 * real (numParticlesNH sys I)])"
    using dof_particles_noCOM [OF assms(1,2), of "[0..<?n]" "replicate NUM_TG 0"]
    by (simp add: f cnt TG_ATOM_def NUM_TG_def)
  have d2: "(case force of None \<Rightarrow> d | Some pairs \<Rightarrow> dof_drude I pairs d) = d" for d
    using assms(3) by auto
  have "tempGroupDof sys I force = Inr (map (\<lambda>d. std_max d 0) ((replicate NUM_TG 0)[TG_ATOM := 3 * real (numParticlesNH sys I)]))"
    by (simp add: tempGroupDof_def d1 d2 assms(2,4) dof_cmmotion_absent [OF assms(5)] Let_def)
  then show ?thesis by (simp add: TG_ATOM_def NUM_TG_def std_max_def)
qed


text \<open>Three massive Nose-Hoover particles in two residues: 9 degrees of freedom.\<close>

theorem tempGroupDof_atom_3N_witness:
  "tables_cover \<lparr>particleMasses = [12, 1, 16], constraints = [], forces = [OtherForce]\<rparr>
     ((VVIntegrator_new 300 1 1 1 1 1 1 False)
        \<lparr>particlesNH := [0, 1, 2], particleResId := [0, 0, 1],
          residueInvMasses := [Some (1 / 13), Some (1 / 16)]\<rparr>)
   \<and> numParticlesNH \<lparr>particleMasses = [12, 1, 16], constraints = [], forces = [OtherForce]\<rparr>
     ((VVIntegrator_new 300 1 1 1 1 1 1 False)
        \<lparr>particlesNH := [0, 1, 2], particleResId := [0, 0, 1],
          residueInvMasses := [Some (1 / 13), Some (1 / 16)]\<rparr>) = 3
   \<and> (\<exists>dof. tempGroupDof
         \<lparr>particleMasses = [12, 1, 16], constraints = [], forces = [OtherForce]\<rparr>
         ((VVIntegrator_new 300 1 1 1 1 1 1 False)
            \<lparr>particlesNH := [0, 1, 2], particleResId := [0, 0, 1],
              residueInvMasses := [Some (1 / 13), Some (1 / 16)]\<rparr>)
         None = Inr dof \<and> dof ! TG_ATOM = 9)"
  using tempGroupDof_atom_3N
    [of "\<lparr>particleMasses = [12, 1, 16], constraints = [], forces = [OtherForce]\<rparr>"
        "(VVIntegrator_new 300 1 1 1 1 1 1 False)
           \<lparr>particlesNH := [0, 1, 2], particleResId := [0, 0, 1],
             residueInvMasses := [Some (1 / 13), Some (1 / 16)]\<rparr>"
        None]
  by (simp add: tables_cover_def numParticlesNH_def getNumParticles_def VVIntegrator_new_def
        isParticleNH_def upt_rec less_Suc_eq)

subsection \<open>The Nose-Hoover chain\<close>

declare kick_outward.simps [simp del]
declare kick_inward.simps(2) [simp del]

lemma three_updates:
  "(ed[i := ed ! i * e, i := ed[i := ed ! i * e] ! i + d * dt4])
     [i := ed[i := ed ! i * e, i := ed[i := ed ! i * e] ! i + d * dt4] ! i * e]
   = ed[i := (ed ! i * e + d * dt4) * (e::real)]"
  by (cases "i < length ed") (simp_all add: list_update_beyond)

lemma kick_inward_Suc:
  "kick_inward dt4 dt8 edd (Suc ich) (ed, x) =
   kick_inward dt4 dt8 edd ich
     (ed[ich := (ed ! ich * exp (- dt8 * ed ! (ich + 1)) + edd ! ich * dt4)
                * exp (- dt8 * ed ! (ich + 1))],
      exp (- dt8 * ed ! (ich + 1)))"
  by (simp only: kick_inward.simps(2) Let_def three_updates)

lemma kick_inward_length:
  "length (fst (kick_inward dt4 dt8 edd k (ed, x))) = length ed"
  by (induction k arbitrary: ed x) (simp_all add: kick_inward_Suc)

lemma kick_inward_above:
  "k \<le> j \<Longrightarrow> fst (kick_inward dt4 dt8 edd k (ed, x)) ! j = ed ! j"
  by (induction k arbitrary: ed x) (simp_all add: kick_inward_Suc)

lemma advance_eta_length: "length (advance_eta dt2 ed n e) = length e"
proof -
  have "length (fold (\<lambda>ich e. e[ich := e ! ich + dt2 * ed ! ich]) ks e) = length e" for ks
    by (induction ks arbitrary: e) simp_all
  then show ?thesis by (simp add: advance_eta_def)
qed

lemma advance_eta_above: "n \<le> j \<Longrightarrow> advance_eta dt2 ed n e ! j = e ! j"
proof -
  have "\<forall>k \<in> set ks. k \<noteq> j \<Longrightarrow> fold (\<lambda>ich e. e[ich := e ! ich + dt2 * ed ! ich]) ks e ! j = e ! j" for ks
    by (induction ks arbitrary: e) simp_all
  then show "n \<le> j \<Longrightarrow> advance_eta dt2 ed n e ! j = e ! j" by (simp add: advance_eta_def)
qed

lemma kick_outward_stop:
  "\<not> ich < n \<Longrightarrow> kick_outward dt4 dt8 kT mass n ich st = Inr st"
  by (cases st) (simp add: kick_outward.simps)

lemma kick_outward_zero_mass:
  "ich < n \<Longrightarrow> mass ! ich = 0 \<Longrightarrow> kick_outward dt4 dt8 kT mass n ich st = Inl DivisionByZero"
  by (cases st) (simp add: kick_outward.simps Let_def)

text \<open>One link of the outward loop, with the three updates of \<open>eta_dot\<close> merged.\<close>

lemma kick_outward_step:
  assumes "ich < n" "mass ! ich \<noteq> 0" "1 \<le> ich"
  shows "kick_outward dt4 dt8 kT mass n ich (ed, edd, x) =
     kick_outward dt4 dt8 kT mass n (Suc ich)
       (outward_ed dt4 dt8 kT mass ich ed edd, outward_edd kT mass ich ed edd,
        exp (- dt8 * ed ! (ich + 1)))"
proof -
  have nth: "ed[ich := a] ! (ich - 1) = ed ! (ich - 1)" for a
    using assms(3) by simp
  have "kick_outward dt4 dt8 kT mass n ich (ed, edd, x) =
     kick_outward dt4 dt8 kT mass n (ich + 1)
       (ed[ich := (ed ! ich * exp (- dt8 * ed ! (ich + 1))
                   + edd[ich := (mass ! (ich - 1) * ed ! (ich - 1) * ed ! (ich - 1) - kT)
                                 / mass ! ich] ! ich * dt4)
                  * exp (- dt8 * ed ! (ich + 1))],
        edd[ich := (mass ! (ich - 1) * ed ! (ich - 1) * ed ! (ich - 1) - kT) / mass ! ich],
        exp (- dt8 * ed ! (ich + 1)))"
    by (subst kick_outward.simps)
       (simp only: assms(1,2) if_True if_False Let_def nth three_updates)
  then show ?thesis by (simp only: outward_ed_def outward_edd_def Suc_eq_plus1)
qed

lemma outward_lengths [simp]:
  "length (outward_ed dt4 dt8 kT mass ich ed edd) = length ed"
  "length (outward_edd kT mass ich ed edd) = length edd"
  by (simp_all add: outward_ed_def outward_edd_def)

lemma outward_nth_other [simp]:
  "j \<noteq> ich \<Longrightarrow> outward_ed dt4 dt8 kT mass ich ed edd ! j = ed ! j"
  "j \<noteq> ich \<Longrightarrow> outward_edd kT mass ich ed edd ! j = edd ! j"
  by (simp_all add: outward_ed_def outward_edd_def)

lemma kick_outward_frame:
  "1 \<le> ich \<Longrightarrow> kick_outward dt4 dt8 kT mass n ich (ed, edd, x) = Inr (ed', edd', x') \<Longrightarrow>
   length ed' = length ed \<and> length edd' = length edd \<and>
   (\<forall>j. j < ich \<or> n \<le> j \<longrightarrow> ed' ! j = ed ! j \<and> edd' ! j = edd ! j)"
proof (induction "n - ich" arbitrary: ich ed edd x)
  case 0
  then have "\<not> ich < n" by simp
  with "0.prems" show ?case by (simp add: kick_outward_stop)
next
  case (Suc m)
  then have lt: "ich < n" and m: "m = n - Suc ich" by simp_all
  show ?case
  proof (cases "mass ! ich = 0")
    case True
    with lt Suc.prems show ?thesis by (simp add: kick_outward_zero_mass)
  next
    case False
    from Suc.prems have r: "kick_outward dt4 dt8 kT mass n (Suc ich)
       (outward_ed dt4 dt8 kT mass ich ed edd, outward_edd kT mass ich ed edd,
        exp (- dt8 * ed ! (ich + 1))) = Inr (ed', edd', x')"
      by (simp only: kick_outward_step [OF lt False Suc.prems(1)])
    have "1 \<le> Suc ich" by simp
    from Suc.hyps(1) [OF m this r] lt show ?thesis by auto
  qed
qed

lemma kick_outward_total:
  "1 \<le> ich \<Longrightarrow> \<forall>j. ich \<le> j \<and> j < n \<longrightarrow> mass ! j \<noteq> 0 \<Longrightarrow>
   \<exists>r. kick_outward dt4 dt8 kT mass n ich (ed, edd, x) = Inr r"
proof (induction "n - ich" arbitrary: ich ed edd x)
  case 0
  then have "\<not> ich < n" by simp
  then show ?case by (simp add: kick_outward_stop)
next
  case (Suc m)
  then have lt: "ich < n" and m: "m = n - Suc ich" by simp_all
  from Suc.prems lt have nz: "mass ! ich \<noteq> 0" by simp
  from Suc.prems have all: "\<forall>j. Suc ich \<le> j \<and> j < n \<longrightarrow> mass ! j \<noteq> 0" by simp
  have "1 \<le> Suc ich" by simp
  from Suc.hyps(1) [OF m this all] show ?case
    by (simp only: kick_outward_step [OF lt nz Suc.prems(1)])
qed

lemma kick_outward_error:
  "1 \<le> ich \<Longrightarrow> kick_outward dt4 dt8 kT mass n ich st = Inl err \<Longrightarrow> err = DivisionByZero"
proof (induction "n - ich" arbitrary: ich st)
  case 0
  then have "\<not> ich < n" by simp
  with "0.prems" show ?case by (simp add: kick_outward_stop)
next
  case (Suc m)
  then have lt: "ich < n" and m: "m = n - Suc ich" by simp_all
  obtain ed edd x where st: "st = (ed, edd, x)" by (cases st)
  show ?case
  proof (cases "mass ! ich = 0")
    case True
    with lt Suc.prems show ?thesis by (simp add: kick_outward_zero_mass)
  next
    case False
    have "1 \<le> Suc ich" by simp
    from Suc.prems(2) show ?thesis
      unfolding st kick_outward_step [OF lt False Suc.prems(1)]
      by (rule Suc.hyps(1) [OF m \<open>1 \<le> Suc ich\<close>])
  qed
qed

lemma sub_iteration_unfold:
  assumes "kick_inward dt4 dt8 (eta_dotdot c) n (eta_dot c, x) = (ed1, x1)"
    and "f' = f * exp (- dt2 * ed1 ! 0)"
    and "edd4 = (eta_dotdot c)[0 := (ke2 * f' * f' - ke2_target) / mass ! 0]"
    and "ed4 = ed1[0 := (ed1 ! 0 * x1 + edd4 ! 0 * dt4) * x1]"
  shows "sub_iteration dt2 dt4 dt8 kT mass n ke2 ke2_target (c, x, f) =
     (if mass ! 0 = 0 then Inl DivisionByZero
      else case kick_outward dt4 dt8 kT mass n 1 (ed4, edd4, x1) of
             Inl err \<Rightarrow> Inl err
           | Inr (ed, edd, expfac) \<Rightarrow>
               Inr (\<lparr>eta = advance_eta dt2 ed1 n (eta c), eta_dot = ed, eta_dotdot = edd\<rparr>,
                    expfac, f'))"
  by (simp only: sub_iteration_def prod.case Let_def three_updates assms)

lemma nh_frame_refl: "nh_frame n c c"
  by (simp add: nh_frame_def)

lemma nh_frame_trans: "nh_frame n c c' \<Longrightarrow> nh_frame n c' c'' \<Longrightarrow> nh_frame n c c''"
  by (simp add: nh_frame_def)

lemma sub_iteration_frame:
  assumes r: "sub_iteration dt2 dt4 dt8 kT mass n ke2 ke2_target (c, x, f) = Inr (c', x', f')"
    and n: "1 \<le> n"
  shows "nh_frame n c c'"
proof -
  obtain ed1 x1 where k: "kick_inward dt4 dt8 (eta_dotdot c) n (eta_dot c, x) = (ed1, x1)"
    by (cases "kick_inward dt4 dt8 (eta_dotdot c) n (eta_dot c, x)")
  define f1 where "f1 = f * exp (- dt2 * ed1 ! 0)"
  define edd4 where "edd4 = (eta_dotdot c)[0 := (ke2 * f1 * f1 - ke2_target) / mass ! 0]"
  define ed4 where "ed4 = ed1[0 := (ed1 ! 0 * x1 + edd4 ! 0 * dt4) * x1]"
  note u = sub_iteration_unfold [OF k f1_def edd4_def ed4_def, where kT = kT]
  from r u have nz: "mass ! 0 \<noteq> 0" by (auto split: if_splits)
  from r u nz obtain ed edd expfac where
    o: "kick_outward dt4 dt8 kT mass n 1 (ed4, edd4, x1) = Inr (ed, edd, expfac)"
    and c': "c' = \<lparr>eta = advance_eta dt2 ed1 n (eta c), eta_dot = ed, eta_dotdot = edd\<rparr>"
    by (auto split: sum.splits)
  have l1: "length ed1 = length (eta_dot c)" and a1: "\<forall>j\<ge>n. ed1 ! j = eta_dot c ! j"
    using kick_inward_length [of dt4 dt8 "eta_dotdot c" n "eta_dot c" x]
      kick_inward_above [of n _ dt4 dt8 "eta_dotdot c" "eta_dot c" x] k by simp_all
  from kick_outward_frame [OF _ o]
  have fr: "length ed = length ed4" "length edd = length edd4"
    "\<forall>j. j < 1 \<or> n \<le> j \<longrightarrow> ed ! j = ed4 ! j \<and> edd ! j = edd4 ! j" by simp_all
  show ?thesis
    unfolding nh_frame_def c'
    using fr l1 a1 n by (auto simp: ed4_def edd4_def advance_eta_length advance_eta_above)
qed

lemma sub_iteration_error:
  "sub_iteration dt2 dt4 dt8 kT mass n ke2 ke2_target st = Inl err \<Longrightarrow> err = DivisionByZero"
proof -
  assume r: "sub_iteration dt2 dt4 dt8 kT mass n ke2 ke2_target st = Inl err"
  obtain c x f where st: "st = (c, x, f)" by (cases st)
  obtain ed1 x1 where k: "kick_inward dt4 dt8 (eta_dotdot c) n (eta_dot c, x) = (ed1, x1)"
    by (cases "kick_inward dt4 dt8 (eta_dotdot c) n (eta_dot c, x)")
  note u = sub_iteration_unfold [OF k refl refl refl, where ?dt2.0 = dt2 and f = f and kT = kT and mass = mass and ?ke2.0 = ke2 and ke2_target = ke2_target]
  show ?thesis
  proof (cases "mass ! 0 = 0")
    case True
    with r u st show ?thesis by simp
  next
    case False
    with r u st show ?thesis
      by (auto split: sum.splits dest: kick_outward_error [rotated])
  qed
qed

lemma sub_iteration_total:
  assumes "\<forall>j<n. mass ! j \<noteq> 0" "1 \<le> n"
  shows "\<exists>r. sub_iteration dt2 dt4 dt8 kT mass n ke2 ke2_target st = Inr r"
proof -
  obtain c x f where st: "st = (c, x, f)" by (cases st)
  obtain ed1 x1 where k: "kick_inward dt4 dt8 (eta_dotdot c) n (eta_dot c, x) = (ed1, x1)"
    by (cases "kick_inward dt4 dt8 (eta_dotdot c) n (eta_dot c, x)")
  define f1 where "f1 = f * exp (- dt2 * ed1 ! 0)"
  define edd4 where "edd4 = (eta_dotdot c)[0 := (ke2 * f1 * f1 - ke2_target) / mass ! 0]"
  define ed4 where "ed4 = ed1[0 := (ed1 ! 0 * x1 + edd4 ! 0 * dt4) * x1]"
  note u = sub_iteration_unfold [OF k f1_def edd4_def ed4_def, where kT = kT]
  from assms have nz: "mass ! 0 \<noteq> 0" by simp
  from assms have all: "\<forall>j. 1 \<le> j \<and> j < n \<longrightarrow> mass ! j \<noteq> 0" by simp
  have "(1::nat) \<le> 1" by simp
  from kick_outward_total [OF this all, of dt4 dt8 kT ed4 edd4 x1] obtain r where
    o: "kick_outward dt4 dt8 kT mass n 1 (ed4, edd4, x1) = Inr r" by blast
  obtain ed edd x' where r: "r = (ed, edd, x')" by (cases r)
  have "sub_iteration dt2 dt4 dt8 kT mass n ke2 ke2_target st
        = Inr (\<lparr>eta = advance_eta dt2 ed1 n (eta c), eta_dot = ed, eta_dotdot = edd\<rparr>, x', f1)"
    unfolding st u using nz o r by simp
  then show ?thesis by blast
qed

lemma nh_loop_frame:
  "nh_loop (sub_iteration dt2 dt4 dt8 kT mass n ke2 ke2_target) k (c, x, f) = Inr (c', x', f')
   \<Longrightarrow> 1 \<le> n \<Longrightarrow> nh_frame n c c'"
proof (induction k arbitrary: c x f)
  case 0
  then show ?case by (simp add: nh_frame_refl)
next
  case (Suc k)
  from Suc.prems(1) obtain c1 x1 f1 where
    s: "sub_iteration dt2 dt4 dt8 kT mass n ke2 ke2_target (c, x, f) = Inr (c1, x1, f1)"
    and l: "nh_loop (sub_iteration dt2 dt4 dt8 kT mass n ke2 ke2_target) k (c1, x1, f1) = Inr (c', x', f')"
    by (auto split: sum.splits)
  from sub_iteration_frame [OF s Suc.prems(2)] Suc.IH [OF l Suc.prems(2)]
  show ?case by (rule nh_frame_trans)
qed

lemma nh_loop_total:
  assumes "\<forall>j<n. mass ! j \<noteq> 0" "1 \<le> n"
  shows "\<exists>r. nh_loop (sub_iteration dt2 dt4 dt8 kT mass n ke2 ke2_target) k st = Inr r"
proof (induction k arbitrary: st)
  case 0
  show ?case by (intro exI [of _ st]) simp
next
  case (Suc k)
  from sub_iteration_total [OF assms] obtain r where
    r: "sub_iteration dt2 dt4 dt8 kT mass n ke2 ke2_target st = Inr r" by blast
  from Suc.IH [of r] obtain r' where
    "nh_loop (sub_iteration dt2 dt4 dt8 kT mass n ke2 ke2_target) k r = Inr r'" by blast
  with r have "nh_loop (sub_iteration dt2 dt4 dt8 kT mass n ke2 ke2_target) (Suc k) st = Inr r'"
    by simp
  then show ?case by blast
qed

lemma nh_loop_error:
  "nh_loop (sub_iteration dt2 dt4 dt8 kT mass n ke2 ke2_target) k st = Inl err
   \<Longrightarrow> err = DivisionByZero"
proof (induction k arbitrary: st)
  case 0
  then show ?case by simp
next
  case (Suc k)
  then show ?case
    by (auto split: sum.splits dest: sub_iteration_error)
qed

lemma nh_prologue_frame: "1 \<le> n \<Longrightarrow> nh_frame n c (fst (nh_prologue c mass ke2 ke2_target))"
  by (simp add: nh_prologue_def nh_frame_def Let_def)

lemma nh_prologue_parts:
  "snd (nh_prologue c mass ke2 ke2_target) = (0, 1)"
  by (simp add: nh_prologue_def Let_def)

lemma propagateNHChain_zero_mass:
  assumes "nh_in_bounds I c mass" "1 \<le> loopsPerStep I" "mass ! 0 = 0"
  shows "propagateNHChain kb I c mass ke2 ke2_target T = Inl DivisionByZero"
proof -
  from assms(2) obtain k where k: "nat (loopsPerStep I) = Suc k"
    by (cases "nat (loopsPerStep I)") simp_all
  have "sub_iteration dt2 dt4 dt8 kT mass n ke2 ke2_target st = Inl DivisionByZero"
    for dt2 dt4 dt8 kT n st
    using assms(3) by (simp add: sub_iteration_def Let_def split: prod.splits)
  then show ?thesis
    using assms(1) by (simp add: propagateNHChain_def Let_def k)
qed

text \<open>
  Claim C1 fails on the code. The guard \<^verbatim>\<open>if (eta_mass[0] > 0)\<close> protects only the first
  division; inside the loop \<^verbatim>\<open>eta_dotdot[0]\<close> is divided by \<^verbatim>\<open>eta_mass[0]\<close> with no guard.
  The input is the chain of a temperature group without degrees of freedom, as the kernel
  sets it up (zero mass, zero target, chain at rest), with two sub-iterations: the call
  divides by the zero mass. In C++ the first sub-iteration leaves \<^verbatim>\<open>eta_dot[0]\<close> infinite and
  the second multiplies the factor by \<open>exp (- dt2 * eta_dot[0])\<close>, which is 0 and not 1.
\<close>

theorem propagateNHChain_zero_mass_divides:
  "propagateNHChain (83144626 / 10000000000) (VVIntegrator_new 300 1 1 1 (1 / 1000) 1 2 False)
     \<lparr>eta = [0], eta_dot = [0, 0], eta_dotdot = [0]\<rparr> [0] 1 0 300
   = Inl DivisionByZero"
  by (rule propagateNHChain_zero_mass)
     (simp_all add: VVIntegrator_new_def nh_in_bounds_def)

subsection \<open>The chain propagation against the reference sequence\<close>

lemma kick_inward_ref_step1:
  "fst (kick_inward dt4 dt8 edd k (ed, x)) = ref_step1 dt4 dt8 k edd ed"
proof (induction k arbitrary: ed x)
  case 0
  then show ?case by (simp add: ref_step1_def)
next
  case (Suc k)
  have "ref_step1 dt4 dt8 (Suc k) edd ed = ref_step1 dt4 dt8 k edd (ref_half_kick dt4 dt8 edd k ed)"
    by (simp add: ref_step1_def)
  with Suc.IH show ?case
    by (simp only: kick_inward_Suc ref_half_kick_def)
qed

lemma kick_inward_expfac:
  "snd (kick_inward dt4 dt8 edd (Suc k) (ed, x))
   = exp (- dt8 * fst (kick_inward dt4 dt8 edd (Suc k) (ed, x)) ! 1)"
proof (induction k arbitrary: ed x)
  case 0
  show ?case by (simp add: kick_inward_Suc)
next
  case (Suc k)
  show ?case
    by (subst (1 2) kick_inward_Suc) (rule Suc.IH)
qed

lemma advance_eta_ref_step3:
  "n \<le> length e \<Longrightarrow> advance_eta dt2 ed n e = ref_step3 dt2 n ed e"
proof (induction n)
  case 0
  then show ?case by (simp add: advance_eta_def ref_step3_def)
next
  case (Suc n)
  then have n: "n < length e" by simp
  let ?A = "map (\<lambda>ich. e ! ich + dt2 * ed ! ich) [0..<n]"
  from Suc have IH: "advance_eta dt2 ed n e = ?A @ drop n e"
    by (simp add: ref_step3_def)
  have "advance_eta dt2 ed (Suc n) e
        = (advance_eta dt2 ed n e)[n := advance_eta dt2 ed n e ! n + dt2 * ed ! n]"
    by (simp add: advance_eta_def)
  also have "\<dots> = (?A @ drop n e)[n := (?A @ drop n e) ! n + dt2 * ed ! n]"
    by (simp only: IH)
  also have "(?A @ drop n e) ! n = e ! n"
    using n by (simp add: nth_append)
  also have "(?A @ drop n e)[n := e ! n + dt2 * ed ! n]
        = ?A @ (e ! n + dt2 * ed ! n) # drop (Suc n) e"
    using n by (simp add: list_update_append Cons_nth_drop_Suc [symmetric])
  also have "\<dots> = ref_step3 dt2 (Suc n) ed e"
    by (simp add: ref_step3_def)
  finally show ?case .
qed

lemma ref_step5_link_nonzero:
  "mass ! ich \<noteq> 0 \<Longrightarrow>
   ref_step5_link dt4 dt8 kT mass ich (ed, edd)
   = Inr (outward_ed dt4 dt8 kT mass ich ed edd, outward_edd kT mass ich ed edd)"
  by (simp add: ref_step5_link_def ref_half_kick_def outward_ed_def outward_edd_def
        power2_eq_square Let_def mult.assoc)

lemma ref_step5_link_zero:
  "mass ! ich = 0 \<Longrightarrow> ref_step5_link dt4 dt8 kT mass ich st = Inl DivisionByZero"
  by (simp add: ref_step5_link_def split: prod.splits)

lemma kick_outward_ref_step5:
  "1 \<le> ich \<Longrightarrow>
   (case kick_outward dt4 dt8 kT mass n ich (ed, edd, x) of
      Inl err \<Rightarrow> Inl err | Inr (ed', edd', x') \<Rightarrow> Inr (ed', edd'))
   = fold_err (ref_step5_link dt4 dt8 kT mass) [ich..<n] (ed, edd)"
proof (induction "n - ich" arbitrary: ich ed edd x)
  case 0
  then have "\<not> ich < n" by simp
  then show ?case by (simp add: kick_outward_stop)
next
  case (Suc m)
  then have lt: "ich < n" and m: "m = n - Suc ich" by simp_all
  have up: "[ich..<n] = ich # [Suc ich..<n]" using lt by (rule upt_conv_Cons)
  show ?case
  proof (cases "mass ! ich = 0")
    case True
    with lt show ?thesis
      by (simp add: kick_outward_zero_mass up ref_step5_link_zero)
  next
    case False
    have "1 \<le> Suc ich" by simp
    from Suc.hyps(1) [OF m this] show ?thesis
      by (simp only: kick_outward_step [OF lt False Suc.prems] up fold_err.simps
            ref_step5_link_nonzero [OF False] sum.case)
  qed
qed

lemma sub_iteration_ref:
  assumes n: "1 \<le> n" and len: "n \<le> length (eta c)"
  shows "(case sub_iteration dt2 dt4 dt8 kT mass n ke2 ke2_target (c, x, f) of
            Inl err \<Rightarrow> Inl err | Inr (c', x', f') \<Rightarrow> Inr (c', f'))
         = ref_sub_iteration dt2 dt4 dt8 kT mass n ke2 ke2_target (c, f)"
proof -
  from n obtain k where k: "n = Suc k" by (cases n) simp_all
  define ed1 where "ed1 = ref_step1 dt4 dt8 n (eta_dotdot c) (eta_dot c)"
  define x1 where "x1 = exp (- dt8 * ed1 ! 1)"
  have ki: "kick_inward dt4 dt8 (eta_dotdot c) n (eta_dot c, x) = (ed1, x1)"
    using kick_inward_ref_step1 [of dt4 dt8 "eta_dotdot c" n "eta_dot c" x]
      kick_inward_expfac [of dt4 dt8 "eta_dotdot c" k "eta_dot c" x]
    by (simp add: prod_eq_iff ed1_def x1_def k)
  define f1 where "f1 = f * exp (- dt2 * ed1 ! 0)"
  define edd4 where "edd4 = (eta_dotdot c)[0 := (ke2 * f1 * f1 - ke2_target) / mass ! 0]"
  define ed4 where "ed4 = ed1[0 := (ed1 ! 0 * x1 + edd4 ! 0 * dt4) * x1]"
  note u = sub_iteration_unfold [OF ki f1_def edd4_def ed4_def, where kT = kT]
  have e4: "edd4 = (eta_dotdot c)[0 := (ke2 * f1\<^sup>2 - ke2_target) / mass ! 0]"
    by (simp add: edd4_def power2_eq_square mult.assoc)
  have d4: "ed4 = ref_half_kick dt4 dt8 edd4 0 ed1"
    by (simp add: ed4_def ref_half_kick_def x1_def)
  have ko: "(case kick_outward dt4 dt8 kT mass n 1 (ed4, edd4, x1) of
      Inl err \<Rightarrow> Inl err | Inr (ed', edd', x') \<Rightarrow> Inr (ed', edd'))
   = fold_err (ref_step5_link dt4 dt8 kT mass) [1..<n] (ed4, edd4)"
    by (rule kick_outward_ref_step5) simp
  have r: "ref_sub_iteration dt2 dt4 dt8 kT mass n ke2 ke2_target (c, f) =
     (if mass ! 0 = 0 then Inl DivisionByZero
      else case fold_err (ref_step5_link dt4 dt8 kT mass) [1..<n] (ed4, edd4) of
             Inl err \<Rightarrow> Inl err
           | Inr (etaDot5, etaDotDot5) \<Rightarrow>
               Inr (\<lparr>eta = ref_step3 dt2 n ed1 (eta c), eta_dot = etaDot5,
                      eta_dotdot = etaDotDot5\<rparr>, f1))"
    by (simp only: ref_sub_iteration_def prod.case Let_def ed1_def [symmetric]
          f1_def [symmetric] e4 [symmetric] d4 [symmetric])
  show ?thesis
  proof (cases "mass ! 0 = 0")
    case True
    then show ?thesis by (simp add: u r)
  next
    case False
    show ?thesis
    proof (cases "kick_outward dt4 dt8 kT mass n 1 (ed4, edd4, x1)")
      case (Inl err)
      with ko have "fold_err (ref_step5_link dt4 dt8 kT mass) [1..<n] (ed4, edd4) = Inl err"
        by simp
      with Inl False show ?thesis by (simp add: u r)
    next
      case (Inr res)
      obtain ed' edd' x' where res: "res = (ed', edd', x')" by (cases res)
      from ko Inr res
      have "fold_err (ref_step5_link dt4 dt8 kT mass) [1..<n] (ed4, edd4) = Inr (ed', edd')"
        by simp
      with Inr res False show ?thesis
        by (simp add: u r advance_eta_ref_step3 [OF len])
    qed
  qed
qed

lemma nh_loop_ref:
  assumes n: "1 \<le> n"
  shows "n \<le> length (eta c) \<Longrightarrow> length ks = k \<Longrightarrow>
    (case nh_loop (sub_iteration dt2 dt4 dt8 kT mass n ke2 ke2_target) k (c, x, f) of
       Inl err \<Rightarrow> Inl err | Inr (c', x', f') \<Rightarrow> Inr (c', f'))
    = fold_err (\<lambda>iloop. ref_sub_iteration dt2 dt4 dt8 kT mass n ke2 ke2_target) ks (c, f)"
proof (induction ks arbitrary: k c x f)
  case Nil
  then show ?case by simp
next
  case (Cons i ks)
  then obtain k' where k: "k = Suc k'" and l: "length ks = k'" by (cases k) simp_all
  note sr = sub_iteration_ref [OF n Cons.prems(1), of dt2 dt4 dt8 kT mass ke2 ke2_target x f]
  show ?case
  proof (cases "sub_iteration dt2 dt4 dt8 kT mass n ke2 ke2_target (c, x, f)")
    case (Inl err)
    with sr have "ref_sub_iteration dt2 dt4 dt8 kT mass n ke2 ke2_target (c, f) = Inl err"
      by simp
    with Inl show ?thesis by (simp add: k)
  next
    case (Inr res)
    obtain c1 x1 f1 where res: "res = (c1, x1, f1)" by (cases res)
    from sr Inr res
    have r: "ref_sub_iteration dt2 dt4 dt8 kT mass n ke2 ke2_target (c, f) = Inr (c1, f1)"
      by simp
    from sub_iteration_frame [OF Inr [unfolded res] n] Cons.prems(1)
    have "n \<le> length (eta c1)" by (simp add: nh_frame_def)
    from Cons.IH [OF this l, of x1 f1] Inr res r show ?thesis by (simp add: k)
  qed
qed

text \<open>
  Claim C2. For every chain whose accesses are in bounds, with \<^verbatim>\<open>loopsPerStep\<close> and
  \<^verbatim>\<open>numNHChains\<close> at least 1, \<^verbatim>\<open>propagateNHChain\<close> computes the reference sequence: from the
  chain left by its opening statements and the scale factor 1, it runs \<^verbatim>\<open>loopsPerStep\<close>
  sub-iterations, each the steps 1 to 5 of the specification in that order, with the
  same time steps. For a positive \<^verbatim>\<open>eta_mass[0]\<close> the opening statements set
  \<open>etaDotDot[0] = (ke2 - ke2_target) / etaMass[0]\<close>, as the specification has it. Both sides
  are functions of the inputs, so the result is determined by them; where the code divides
  by a zero mass, so does the reference sequence.
\<close>

theorem propagateNHChain_reference_sequence:
  assumes b: "nh_in_bounds I c mass" and l: "1 \<le> loopsPerStep I" and n: "1 \<le> numNHChains I"
  shows "propagateNHChain kb I c mass ke2 ke2_target T
    = ref_sequence kb (stepSize I) (loopsPerStep I) (numNHChains I) mass ke2 ke2_target T
        (fst (nh_prologue c mass ke2 ke2_target), 1)
    \<and> (0 < mass ! 0 \<longrightarrow>
         fst (nh_prologue c mass ke2 ke2_target)
         = c\<lparr>eta_dotdot := (eta_dotdot c)[0 := (ke2 - ke2_target) / mass ! 0]\<rparr>)"
proof
  obtain c0 where p: "nh_prologue c mass ke2 ke2_target = (c0, 0, 1)"
    using nh_prologue_parts [of c mass ke2 ke2_target]
    by (cases "nh_prologue c mass ke2 ke2_target") simp
  from n have n1: "1 \<le> nat (numNHChains I)" by simp
  from b l have "nat (numNHChains I) \<le> length (eta c)" by (simp add: nh_in_bounds_def)
  moreover have "length (eta c0) = length (eta c)"
    using nh_prologue_frame [OF n1, of c mass ke2 ke2_target] p by (simp add: nh_frame_def)
  ultimately have len: "nat (numNHChains I) \<le> length (eta c0)" by simp
  have "length [0..<nat (loopsPerStep I)] = nat (loopsPerStep I)" by simp
  from nh_loop_ref [OF n1 len this]
  show "propagateNHChain kb I c mass ke2 ke2_target T
    = ref_sequence kb (stepSize I) (loopsPerStep I) (numNHChains I) mass ke2 ke2_target T
        (fst (nh_prologue c mass ke2 ke2_target), 1)"
    using b by (simp add: propagateNHChain_def ref_sequence_def Let_def p)
next
  show "0 < mass ! 0 \<longrightarrow>
         fst (nh_prologue c mass ke2 ke2_target)
         = c\<lparr>eta_dotdot := (eta_dotdot c)[0 := (ke2 - ke2_target) / mass ! 0]\<rparr>"
    by (simp add: nh_prologue_def Let_def)
qed

text \<open>
  One link, one sub-iteration, \<open>stepSize = 4\<close> (so \<open>dt2 = 2\<close>, \<open>dt4 = 1\<close>, \<open>dt8 = 1/2\<close>),
  \<open>ke2 = 2\<close> against a target of 1: the value is computed along the reference sequence.
\<close>

theorem propagateNHChain_reference_sequence_witness:
  "propagateNHChain 1 (VVIntegrator_new 300 1 1 1 4 1 1 False)
     \<lparr>eta = [0], eta_dot = [0, 0], eta_dotdot = [0]\<rparr> [1] 2 1 300
   = Inr (\<lparr>eta = [2], eta_dot = [2 * exp (- 4), 0], eta_dotdot = [2 * exp (- 4) - 1]\<rparr>,
          exp (- 2))"
  using propagateNHChain_reference_sequence
    [of "VVIntegrator_new 300 1 1 1 4 1 1 False"
               "\<lparr>eta = [0], eta_dot = [0, 0], eta_dotdot = [0]\<rparr>" "[1]" 1 2 1 300]
  by (simp add: VVIntegrator_new_def nh_in_bounds_def nh_prologue_def ref_sequence_def
        ref_sub_iteration_def ref_step1_def ref_step3_def ref_half_kick_def Let_def
        power2_eq_square mult_exp_exp field_simps)

subsection \<open>Classification of the particles\<close>

lemma find_drude_no_more:
  "filter is_DrudeForce fs = [] \<Longrightarrow> find_drude fs f = Inr f"
  by (induction fs f rule: find_drude.induct) (simp_all split: if_splits)

lemma find_drude_at_most_one:
  "length (filter is_DrudeForce fs) \<le> 1 \<Longrightarrow>
   \<exists>force. find_drude fs None = Inr force \<and> (force = None \<longleftrightarrow> filter is_DrudeForce fs = [])"
proof (induction fs)
  case Nil
  then show ?case by simp
next
  case (Cons x fs)
  show ?case
  proof (cases x)
    case (DrudeForce ps)
    with Cons.prems have "filter is_DrudeForce fs = []" by simp
    from find_drude_no_more [OF this, of "Some ps"] DrudeForce show ?thesis by simp
  next
    case CMMotionRemover
    with Cons show ?thesis by simp
  next
    case OtherForce
    with Cons show ?thesis by simp
  qed
qed

lemma assign_molecule_ok:
  "\<forall>p \<in> set m. 0 \<le> p \<and> p < int (length tab) \<Longrightarrow>
   \<exists>tab'. assign_molecule i m tab = Inr tab' \<and> length tab' = length tab \<and>
          (\<forall>p \<in> set m. tab' ! nat p = i) \<and>
          (\<forall>k. int k \<notin> set m \<longrightarrow> tab' ! k = tab ! k)"
proof (induction m arbitrary: tab)
  case Nil
  then show ?case by simp
next
  case (Cons p m)
  then have p: "0 \<le> p" "p < int (length tab)" by simp_all
  from Cons.prems have "\<forall>q \<in> set m. 0 \<le> q \<and> q < int (length (tab[nat p := i]))" by simp
  from Cons.IH [OF this] obtain tab' where
    a: "assign_molecule i m (tab[nat p := i]) = Inr tab'" and l: "length tab' = length tab"
    and v: "\<forall>q \<in> set m. tab' ! nat q = i"
    and u: "\<forall>k. int k \<notin> set m \<longrightarrow> tab' ! k = (tab[nat p := i]) ! k" by auto
  have "tab' ! nat p = i"
  proof (cases "p \<in> set m")
    case True
    with v show ?thesis by simp
  next
    case False
    with u p have "tab' ! nat p = (tab[nat p := i]) ! nat p" by simp
    with p show ?thesis by simp
  qed
  moreover have "\<forall>k. int k \<notin> set (p # m) \<longrightarrow> tab' ! k = tab ! k"
  proof (intro allI impI)
    fix k assume k: "int k \<notin> set (p # m)"
    then have "nat p \<noteq> k" using p by auto
    with u k show "tab' ! k = tab ! k" by simp
  qed
  ultimately show ?case using a l v p by simp
qed

lemma assign_molecules_ok:
  "\<forall>p \<in> set (concat ms). 0 \<le> p \<and> p < int (length tab) \<Longrightarrow> distinct (concat ms) \<Longrightarrow>
   \<exists>tab'. assign_molecules i ms tab = Inr tab' \<and> length tab' = length tab \<and>
          (\<forall>j < length ms. \<forall>p \<in> set (ms ! j). tab' ! nat p = i + int j) \<and>
          (\<forall>k. int k \<notin> set (concat ms) \<longrightarrow> tab' ! k = tab ! k)"
proof (induction ms arbitrary: i tab)
  case Nil
  then show ?case by simp
next
  case (Cons m ms)
  from Cons.prems have "\<forall>p \<in> set m. 0 \<le> p \<and> p < int (length tab)" by simp
  from assign_molecule_ok [OF this, of i] obtain t1 where
    a1: "assign_molecule i m tab = Inr t1" and l1: "length t1 = length tab"
    and v1: "\<forall>p \<in> set m. t1 ! nat p = i"
    and u1: "\<forall>k. int k \<notin> set m \<longrightarrow> t1 ! k = tab ! k" by blast
  from Cons.prems l1 have r: "\<forall>p \<in> set (concat ms). 0 \<le> p \<and> p < int (length t1)" by simp
  from Cons.prems have d: "distinct (concat ms)" and dj: "set m \<inter> set (concat ms) = {}" by simp_all
  from Cons.IH [OF r d, of "i + 1"] obtain t2 where
    a2: "assign_molecules (i + 1) ms t1 = Inr t2" and l2: "length t2 = length t1"
    and v2: "\<forall>j < length ms. \<forall>p \<in> set (ms ! j). t2 ! nat p = i + 1 + int j"
    and u2: "\<forall>k. int k \<notin> set (concat ms) \<longrightarrow> t2 ! k = t1 ! k" by blast
  have "\<forall>j < length (m # ms). \<forall>p \<in> set ((m # ms) ! j). t2 ! nat p = i + int j"
  proof (intro allI impI ballI)
    fix j p assume j: "j < length (m # ms)" and p: "p \<in> set ((m # ms) ! j)"
    show "t2 ! nat p = i + int j"
    proof (cases j)
      case 0
      with p have pm: "p \<in> set m" by simp
      with Cons.prems(1) have "0 \<le> p" by simp
      with pm dj have "int (nat p) \<notin> set (concat ms)" by auto
      with u2 have "t2 ! nat p = t1 ! nat p" by simp
      with v1 pm 0 show ?thesis by simp
    next
      case (Suc j')
      with j p v2 show ?thesis by simp
    qed
  qed
  moreover have "\<forall>k. int k \<notin> set (concat (m # ms)) \<longrightarrow> t2 ! k = tab ! k"
    using u1 u2 by simp
  ultimately show ?case using a1 a2 l1 l2 by simp
qed

lemma add_masses_ok:
  "\<forall>x \<in> set rs. 0 \<le> fst x \<and> fst x < int (length rm) \<Longrightarrow>
   \<exists>rm'. add_masses rs rm = Inr rm' \<and> length rm' = length rm"
proof (induction rs arbitrary: rm)
  case Nil
  then show ?case by simp
next
  case (Cons x rs)
  obtain r m where x: "x = (r, m)" by (cases x)
  from Cons.prems x have r: "0 \<le> r" "r < int (length rm)" by simp_all
  from Cons.prems have "\<forall>y \<in> set rs. 0 \<le> fst y \<and> fst y < int (length (rm[nat r := rm ! nat r + m]))"
    by simp
  from Cons.IH [OF this] r x show ?case by simp
qed

lemma build_tables_ok:
  assumes "molecules_partition c"
  shows "\<exists>tab rm. build_tables c s =
            Inr (s\<lparr>particleResId := tab, residueMasses := rm,
                   residueInvMasses := residueInvMasses s @ map inverse_mass rm\<rparr>) \<and>
          length tab = getNumParticles (system c) \<and>
          (\<forall>j < length (molecules c). \<forall>p \<in> set (molecules c ! j). tab ! nat p = int j) \<and>
          length rm = length (molecules c)"
proof -
  let ?n = "getNumParticles (system c)"
  from assms have d: "distinct (concat (molecules c))"
    and cov: "set (concat (molecules c)) = set (map int [0..<?n])"
    by (simp_all add: molecules_partition_def)
  from cov have rng: "\<forall>p \<in> set (concat (molecules c)). 0 \<le> p \<and> p < int (length (replicate ?n (- 1 :: int)))"
    by auto
  from assign_molecules_ok [OF rng d, of 0] obtain tab where
    a: "assign_molecules 0 (molecules c) (replicate ?n (- 1)) = Inr tab" and l: "length tab = ?n"
    and v: "\<forall>j < length (molecules c). \<forall>p \<in> set (molecules c ! j). tab ! nat p = int j"
    by auto
  have "\<forall>x \<in> set (zip tab (particleMasses (system c))).
          0 \<le> fst x \<and> fst x < int (length (replicate (length (molecules c)) (0::real)))"
  proof
    fix x assume "x \<in> set (zip tab (particleMasses (system c)))"
    then obtain k where k: "k < length tab" and x: "fst x = tab ! k"
      by (auto simp: set_zip)
    from k l cov have "int k \<in> set (concat (molecules c))" by simp
    then obtain m where m: "m \<in> set (molecules c)" and km: "int k \<in> set m" by auto
    from m obtain j where j: "j < length (molecules c)" and mj: "m = molecules c ! j"
      by (auto simp: in_set_conv_nth)
    from v j km mj have "tab ! nat (int k) = int j" by blast
    with x j show "0 \<le> fst x \<and> fst x < int (length (replicate (length (molecules c)) (0::real)))"
      by simp
  qed
  from add_masses_ok [OF this] obtain rm where
    r: "add_masses (zip tab (particleMasses (system c))) (replicate (length (molecules c)) 0) = Inr rm"
    and lr: "length rm = length (molecules c)"
    by auto
  have "build_tables c s =
            Inr (s\<lparr>particleResId := tab, residueMasses := rm,
                   residueInvMasses := residueInvMasses s @ map inverse_mass rm\<rparr>)"
    by (simp add: build_tables_def Let_def a r)
  with l v lr show ?thesis by blast
qed

lemma isParticleLD_cong: "particlesLD s' = particlesLD s \<Longrightarrow> isParticleLD s' = isParticleLD s"
  by (simp add: isParticleLD_def fun_eq_iff)

lemma isParticleImage_cong:
  "particlesImage s' = particlesImage s \<Longrightarrow> isParticleImage s' = isParticleImage s"
  by (simp add: isParticleImage_def fun_eq_iff)

lemma classify_NH_take:
  assumes "\<not> isParticleLD s i \<and> \<not> isParticleImage s i"
    and i: "0 \<le> i" "i < int (length (particleResId s))"
  shows "\<exists>s2. classify_NH (i # rest) s = classify_NH rest s2 \<and> same_roles s s2 \<and>
     set (residuesNH s2) = insert (particleResId s ! nat i) (set (residuesNH s))"
proof -
  define s1 where "s1 = s\<lparr>particlesNH := particlesNH s @ [i]\<rparr>"
  define r where "r = particleResId s ! nat i"
  have g: "getParticleResId s1 i = Inr r"
    using i by (simp add: getParticleResId_def s1_def r_def)
  define s2 where "s2 = (if r \<in> set (residuesNH s1) then s1
                         else s1\<lparr>residuesNH := residuesNH s1 @ [r]\<rparr>)"
  have step: "classify_NH (i # rest) s = classify_NH rest s2"
    using assms(1) g by (simp add: Let_def s1_def [symmetric] s2_def)
  have roles: "same_roles s s2" by (simp add: same_roles_def s2_def s1_def)
  have res2: "set (residuesNH s2) = insert r (set (residuesNH s))"
    by (auto simp: s2_def s1_def)
  show ?thesis using step roles res2 r_def by blast
qed

lemma classify_NH_skip:
  "isParticleLD s i \<or> isParticleImage s i \<Longrightarrow> classify_NH (i # rest) s = classify_NH rest s"
  by (cases "isParticleLD s i") simp_all

lemma classify_NH_ok:
  "\<forall>p \<in> set ps. 0 \<le> p \<and> p < int (length (particleResId s)) \<Longrightarrow>
   \<exists>s'. classify_NH ps s = Inr s' \<and> same_roles s s' \<and>
        set (residuesNH s') = set (residuesNH s) \<union>
          (\<lambda>p. particleResId s ! nat p) ` {p \<in> set ps. \<not> isParticleLD s p \<and> \<not> isParticleImage s p}"
proof (induction ps arbitrary: s)
  case Nil
  then show ?case by (simp add: same_roles_def)
next
  case (Cons i rest)
  then have i: "0 \<le> i" "i < int (length (particleResId s))" by simp_all
  show ?case
  proof (cases "\<not> isParticleLD s i \<and> \<not> isParticleImage s i")
    case False
    from Cons.prems have "\<forall>p \<in> set rest. 0 \<le> p \<and> p < int (length (particleResId s))" by simp
    from Cons.IH [OF this] obtain s' where
      c: "classify_NH rest s = Inr s'" and r: "same_roles s s'"
      and e: "set (residuesNH s') = set (residuesNH s) \<union>
          (\<lambda>p. particleResId s ! nat p) ` {p \<in> set rest. \<not> isParticleLD s p \<and> \<not> isParticleImage s p}"
      by blast
    have eqset: "{p \<in> set (i # rest). \<not> isParticleLD s p \<and> \<not> isParticleImage s p}
        = {p \<in> set rest. \<not> isParticleLD s p \<and> \<not> isParticleImage s p}"
      using False by auto
    from False have "isParticleLD s i \<or> isParticleImage s i" by blast
    then have step: "classify_NH (i # rest) s = classify_NH rest s"
      by (rule classify_NH_skip)
    have c': "classify_NH (i # rest) s = Inr s'" by (simp only: step c)
    have e': "set (residuesNH s') = set (residuesNH s) \<union>
          (\<lambda>p. particleResId s ! nat p) ` {p \<in> set (i # rest). \<not> isParticleLD s p \<and> \<not> isParticleImage s p}"
      by (simp only: e eqset)
    show ?thesis by (rule exI [of _ s']) (intro conjI c' r e')
  next
    case True
    from classify_NH_take [OF True i, of rest] obtain s2 where
      step: "classify_NH (i # rest) s = classify_NH rest s2" and roles: "same_roles s s2"
      and res2: "set (residuesNH s2) = insert (particleResId s ! nat i) (set (residuesNH s))"
      by blast
    from roles have tab: "particleResId s2 = particleResId s"
      and pl: "particlesLD s2 = particlesLD s" and pi: "particlesImage s2 = particlesImage s"
      by (simp_all add: same_roles_def)
    note ld = isParticleLD_cong [OF pl] and im = isParticleImage_cong [OF pi]
    from Cons.prems tab have "\<forall>p \<in> set rest. 0 \<le> p \<and> p < int (length (particleResId s2))" by simp
    from Cons.IH [OF this] obtain s' where
      c: "classify_NH rest s2 = Inr s'" and r': "same_roles s2 s'"
      and e: "set (residuesNH s') = set (residuesNH s2) \<union>
          (\<lambda>p. particleResId s2 ! nat p) ` {p \<in> set rest. \<not> isParticleLD s2 p \<and> \<not> isParticleImage s2 p}"
      by blast
    have eqset: "{p \<in> set (i # rest). \<not> isParticleLD s p \<and> \<not> isParticleImage s p}
        = insert i {p \<in> set rest. \<not> isParticleLD s p \<and> \<not> isParticleImage s p}"
      using True by auto
    have e': "set (residuesNH s') = set (residuesNH s) \<union>
          (\<lambda>p. particleResId s ! nat p) ` {p \<in> set (i # rest). \<not> isParticleLD s p \<and> \<not> isParticleImage s p}"
      unfolding eqset e res2 ld im tab by simp
    have r'': "same_roles s s'" using roles r' by (simp add: same_roles_def)
    have c': "classify_NH (i # rest) s = Inr s'" by (simp only: step c)
    show ?thesis by (rule exI [of _ s']) (intro conjI c' r'' e')
  qed
qed

lemma check_LD_ok:
  "\<forall>p \<in> set ps. 0 \<le> p \<and> p < int (length (particleResId s)) \<Longrightarrow>
   check_LD ps s =
     (if \<exists>p \<in> set ps. isParticleLD s p \<and> particleResId s ! nat p \<in> set (residuesNH s)
      then Inl NHLangevinConflict else Inr ())"
proof (induction ps)
  case Nil
  then show ?case by simp
next
  case (Cons i rest)
  then have i: "0 \<le> i" "i < int (length (particleResId s))" by simp_all
  have g: "getParticleResId s i = Inr (particleResId s ! nat i)"
    using i by (simp add: getParticleResId_def)
  from Cons have IH: "check_LD rest s =
     (if \<exists>p \<in> set rest. isParticleLD s p \<and> particleResId s ! nat p \<in> set (residuesNH s)
      then Inl NHLangevinConflict else Inr ())" by simp
  show ?case by (simp add: g IH)
qed

lemma same_molecule_same_residue:
  assumes part: "molecules_partition c"
    and tab: "\<forall>j < length (molecules c). \<forall>p \<in> set (molecules c ! j). tab ! nat p = int j"
    and p: "p \<in> set (concat (molecules c))" and q: "q \<in> set (concat (molecules c))"
  shows "tab ! nat p = tab ! nat q \<longleftrightarrow> (\<exists>m \<in> set (molecules c). p \<in> set m \<and> q \<in> set m)"
proof -
  have nth: "\<exists>j < length (molecules c). x \<in> set (molecules c ! j)"
    if "x \<in> set (concat (molecules c))" for x
  proof -
    from that obtain m where "m \<in> set (molecules c)" "x \<in> set m" by auto
    then show ?thesis by (metis in_set_conv_nth)
  qed
  from nth [OF p] obtain j where j: "j < length (molecules c)" and pj: "p \<in> set (molecules c ! j)"
    by blast
  from nth [OF q] obtain j' where j': "j' < length (molecules c)" and qj: "q \<in> set (molecules c ! j')"
    by blast
  from tab j pj have tp: "tab ! nat p = int j" by blast
  from tab j' qj have tq: "tab ! nat q = int j'" by blast
  show ?thesis
  proof
    assume "tab ! nat p = tab ! nat q"
    with tp tq have "j = j'" by simp
    with j pj qj have "molecules c ! j \<in> set (molecules c)" "p \<in> set (molecules c ! j)"
      "q \<in> set (molecules c ! j)" by simp_all
    then show "\<exists>m \<in> set (molecules c). p \<in> set m \<and> q \<in> set m" by blast
  next
    assume "\<exists>m \<in> set (molecules c). p \<in> set m \<and> q \<in> set m"
    then obtain i where i: "i < length (molecules c)" and pi: "p \<in> set (molecules c ! i)"
      and qi: "q \<in> set (molecules c ! i)" by (metis in_set_conv_nth)
    from tab i pi qi have "tab ! nat p = int i" "tab ! nat q = int i" by blast+
    then show "tab ! nat p = tab ! nat q" by simp
  qed
qed

lemma mixed_residue_iff:
  "mixed_residue c s \<longleftrightarrow>
   (\<exists>m \<in> set (molecules c). \<exists>p \<in> set m. \<exists>q \<in> set m.
      isParticleLD s p \<and> \<not> isParticleLD s q \<and> \<not> isParticleImage s q)"
  by (auto simp: mixed_residue_def list_ex_iff)

text \<open>What the two classification loops decide, on the tables of a partition.\<close>

lemma classify_decides:
  assumes part: "molecules_partition c"
    and tabs: "particleResId s1 = tab" "length tab = getNumParticles (system c)"
      "\<forall>j < length (molecules c). \<forall>p \<in> set (molecules c ! j). tab ! nat p = int j"
  shows "(mixed_residue c s1 \<longrightarrow> classify c s1 = Inl NHLangevinConflict) \<and>
         (\<not> mixed_residue c s1 \<and> residuesNH s1 = [] \<longrightarrow>
            (\<exists>s2. classify c s1 = Inr s2 \<and> same_roles s1 s2))"
proof -
  let ?n = "getNumParticles (system c)"
  let ?ps = "map int [0..<?n]"
  let ?NH = "\<lambda>q. \<not> isParticleLD s1 q \<and> \<not> isParticleImage s1 q"
  from part have cov: "set (concat (molecules c)) = set ?ps"
    by (simp add: molecules_partition_def)
  have rng: "\<forall>p \<in> set ?ps. 0 \<le> p \<and> p < int (length (particleResId s1))"
    using tabs(1,2) by auto
  from classify_NH_ok [OF rng] obtain s4 where
    c4: "classify_NH ?ps s1 = Inr s4" and r4: "same_roles s1 s4"
    and e4: "set (residuesNH s4) = set (residuesNH s1) \<union>
          (\<lambda>p. particleResId s1 ! nat p) ` {p \<in> set ?ps. ?NH p}" by blast
  from r4 have t4: "particleResId s4 = particleResId s1" and pl: "particlesLD s4 = particlesLD s1"
    by (simp_all add: same_roles_def)
  from rng t4 have rng4: "\<forall>p \<in> set ?ps. 0 \<le> p \<and> p < int (length (particleResId s4))" by simp
  note ck = check_LD_ok [OF rng4]
  note ld = isParticleLD_cong [OF pl]
  have cl: "classify c s1 = (case check_LD ?ps s4 of Inl e \<Rightarrow> Inl e | Inr u \<Rightarrow> Inr s4)"
    by (simp add: classify_def Let_def c4)
  have mixed_conflict: "\<exists>p \<in> set ?ps. isParticleLD s4 p \<and> particleResId s4 ! nat p \<in> set (residuesNH s4)"
    if mx: "mixed_residue c s1"
  proof -
    from mx obtain m p q where m: "m \<in> set (molecules c)" and p: "p \<in> set m" and q: "q \<in> set m"
      and lp: "isParticleLD s1 p" and nq: "?NH q"
      unfolding mixed_residue_iff by blast
    from m p q have pc: "p \<in> set (concat (molecules c))" and qc: "q \<in> set (concat (molecules c))"
      by auto
    from same_molecule_same_residue [OF part tabs(3) pc qc] m p q
    have "tab ! nat p = tab ! nat q" by blast
    moreover from qc cov nq have "tab ! nat q \<in> set (residuesNH s4)"
      unfolding e4 tabs(1) by blast
    ultimately have "particleResId s4 ! nat p \<in> set (residuesNH s4)"
      by (simp add: t4 tabs(1))
    with pc cov lp show ?thesis unfolding ld by blast
  qed
  have no_conflict: "\<not> (\<exists>p \<in> set ?ps. isParticleLD s4 p \<and> particleResId s4 ! nat p \<in> set (residuesNH s4))"
    if nm: "\<not> mixed_residue c s1" and fresh: "residuesNH s1 = []"
  proof
    assume "\<exists>p \<in> set ?ps. isParticleLD s4 p \<and> particleResId s4 ! nat p \<in> set (residuesNH s4)"
    then obtain p where p: "p \<in> set ?ps" and lp: "isParticleLD s1 p"
      and "tab ! nat p \<in> set (residuesNH s4)"
      unfolding ld t4 tabs(1) by blast
    then obtain q where q: "q \<in> set ?ps" and nq: "?NH q" and eq: "tab ! nat p = tab ! nat q"
      unfolding e4 fresh tabs(1) by auto
    from p q cov have pc: "p \<in> set (concat (molecules c))" and qc: "q \<in> set (concat (molecules c))"
      by simp_all
    from same_molecule_same_residue [OF part tabs(3) pc qc] eq
    obtain m where "m \<in> set (molecules c)" "p \<in> set m" "q \<in> set m" by blast
    with lp nq have "mixed_residue c s1" unfolding mixed_residue_iff by blast
    with nm show False by simp
  qed
  show ?thesis
  proof (intro conjI impI)
    assume "mixed_residue c s1"
    from mixed_conflict [OF this] show "classify c s1 = Inl NHLangevinConflict"
      by (simp only: cl ck if_True sum.case)
  next
    assume a: "\<not> mixed_residue c s1 \<and> residuesNH s1 = []"
    then have "\<not> (\<exists>p \<in> set ?ps. isParticleLD s4 p \<and> particleResId s4 ! nat p \<in> set (residuesNH s4))"
      using no_conflict by blast
    then have "classify c s1 = Inr s4"
      by (simp only: cl ck if_False sum.case)
    with r4 show "\<exists>s2. classify c s1 = Inr s2 \<and> same_roles s1 s2" by blast
  qed
qed

text \<open>
  Claim C5, as the code has it. Take an integrator whose owner check passes and a system
  with at most one \<^verbatim>\<open>DrudeForce\<close>, with one if centre-of-mass grouping is on, whose
  molecules partition the particles. If some residue contains both a Langevin particle
  and a Nose-Hoover particle (one that is neither Langevin nor image), \<^verbatim>\<open>initialize\<close>
  fails with the exception that the two thermostats cannot be applied on the same molecule.
  If no residue does, and no residue was classified before, the classification raises
  nothing: \<^verbatim>\<open>initialize\<close> goes on to its last check, and succeeds unless Langevin particles
  meet a cosine acceleration.
\<close>

theorem initialize_NHLangevinConflict:
  assumes own: "owner s = None \<or> owner s = Some (contextOwner c)"
    and one: "length (filter is_DrudeForce (forces (system c))) \<le> 1"
    and com: "useCOMTempGroup s \<Longrightarrow> list_ex is_DrudeForce (forces (system c))"
    and part: "molecules_partition c"
  shows "(mixed_residue c s \<longrightarrow> initialize c s = Inl NHLangevinConflict) \<and>
         (\<not> mixed_residue c s \<and> residuesNH s = [] \<longrightarrow>
            (if particlesLD s \<noteq> [] \<and> cosAcceleration s \<noteq> 0
             then initialize c s = Inl LangevinPerturbationConflict
             else (\<exists>s'. initialize c s = Inr s')))"
proof -
  from find_drude_at_most_one [OF one] obtain force where
    fd: "find_drude (forces (system c)) None = Inr force"
    and fn: "force = None \<longleftrightarrow> filter is_DrudeForce (forces (system c)) = []" by blast
  have nocom: "\<not> (force = None \<and> useCOMTempGroup s)"
  proof
    assume a: "force = None \<and> useCOMTempGroup s"
    with com have "list_ex is_DrudeForce (forces (system c))" by simp
    with a fn show False by (simp add: list_ex_iff filter_empty_conv)
  qed
  from build_tables_ok [OF part, of s] obtain tab rm where
    bt: "build_tables c s =
            Inr (s\<lparr>particleResId := tab, residueMasses := rm,
                   residueInvMasses := residueInvMasses s @ map inverse_mass rm\<rparr>)"
    and lt: "length tab = getNumParticles (system c)"
    and vt: "\<forall>j < length (molecules c). \<forall>p \<in> set (molecules c ! j). tab ! nat p = int j"
    by blast
  define s1 where "s1 = s\<lparr>particleResId := tab, residueMasses := rm,
                   residueInvMasses := residueInvMasses s @ map inverse_mass rm\<rparr>"
  have f1: "particleResId s1 = tab" "residuesNH s1 = residuesNH s"
    "particlesLD s1 = particlesLD s" "particlesImage s1 = particlesImage s"
    "cosAcceleration s1 = cosAcceleration s"
    by (simp_all add: s1_def)
  have mx: "mixed_residue c s1 = mixed_residue c s"
    by (simp add: mixed_residue_def isParticleLD_cong [OF f1(3)] isParticleImage_cong [OF f1(4)])
  have ini: "initialize c s =
      (case classify c s1 of
         Inl e \<Rightarrow> Inl e
       | Inr s2 \<Rightarrow>
           (if particlesLD s2 \<noteq> [] \<and> cosAcceleration s2 \<noteq> 0
            then Inl LangevinPerturbationConflict
            else Inr (bind_context c s2)))"
    using nocom
    by (simp only: initialize_after_owner_check [OF own] fd bt sum.case if_False
          s1_def [symmetric])
  note cd = classify_decides [OF part f1(1) lt vt]
  show ?thesis
  proof (intro conjI impI)
    assume "mixed_residue c s"
    with cd mx have "classify c s1 = Inl NHLangevinConflict" by blast
    then show "initialize c s = Inl NHLangevinConflict" by (simp add: ini)
  next
    assume "\<not> mixed_residue c s \<and> residuesNH s = []"
    with cd mx f1(2) obtain s2 where c2: "classify c s1 = Inr s2" and r2: "same_roles s1 s2"
      by auto
    from r2 f1 have "particlesLD s2 = particlesLD s" "cosAcceleration s2 = cosAcceleration s"
      by (simp_all add: same_roles_def)
    then show "if particlesLD s \<noteq> [] \<and> cosAcceleration s \<noteq> 0
             then initialize c s = Inl LangevinPerturbationConflict
             else (\<exists>s'. initialize c s = Inr s')"
      by (simp add: ini c2)
  qed
qed

text \<open>
  The claim as stated fails where an earlier check of \<^verbatim>\<open>initialize\<close> fires first. Particle
  0 is Langevin, particle 1 Nose-Hoover, both in residue 0, and the system holds two
  \<^verbatim>\<open>DrudeForce\<close>s: the exception is the one about multiple DrudeForces.
\<close>

theorem initialize_mixed_residue_other_error:
  "mixed_residue
     \<lparr>address = 10, contextOwner = 1,
      system = \<lparr>particleMasses = [1, 1], constraints = [],
                forces = [DrudeForce [], DrudeForce []]\<rparr>,
      molecules = [[0, 1]]\<rparr>
     ((VVIntegrator_new 300 1 1 1 1 1 1 False)\<lparr>particlesLD := [0]\<rparr>)
   \<and> initialize
     \<lparr>address = 10, contextOwner = 1,
      system = \<lparr>particleMasses = [1, 1], constraints = [],
                forces = [DrudeForce [], DrudeForce []]\<rparr>,
      molecules = [[0, 1]]\<rparr>
     ((VVIntegrator_new 300 1 1 1 1 1 1 False)\<lparr>particlesLD := [0]\<rparr>)
     = Inl MultipleForceDefinition
   \<and> MultipleForceDefinition \<noteq> NHLangevinConflict"
  by (simp add: mixed_residue_def isParticleLD_def isParticleImage_def VVIntegrator_new_def
        initialize_def MultipleForceDefinition_def NHLangevinConflict_def)

text \<open>
  The same two particles with one \<^verbatim>\<open>DrudeForce\<close>: in one residue they conflict, in two
  residues the integrator binds.
\<close>

theorem initialize_NHLangevinConflict_witness:
  "initialize
     \<lparr>address = 10, contextOwner = 1,
      system = \<lparr>particleMasses = [1, 1], constraints = [], forces = [DrudeForce []]\<rparr>,
      molecules = [[0, 1]]\<rparr>
     ((VVIntegrator_new 300 1 1 1 1 1 1 False)\<lparr>particlesLD := [0]\<rparr>)
     = Inl NHLangevinConflict
   \<and> (\<exists>s'. initialize
     \<lparr>address = 10, contextOwner = 1,
      system = \<lparr>particleMasses = [1, 1], constraints = [], forces = [DrudeForce []]\<rparr>,
      molecules = [[0], [1]]\<rparr>
     ((VVIntegrator_new 300 1 1 1 1 1 1 False)\<lparr>particlesLD := [0]\<rparr>) = Inr s')"
  using initialize_NHLangevinConflict
    [of "(VVIntegrator_new 300 1 1 1 1 1 1 False)\<lparr>particlesLD := [0]\<rparr>"
     "\<lparr>address = 10, contextOwner = 1,
      system = \<lparr>particleMasses = [1, 1], constraints = [], forces = [DrudeForce []]\<rparr>,
      molecules = [[0, 1]]\<rparr>"]
    initialize_NHLangevinConflict
      [of "(VVIntegrator_new 300 1 1 1 1 1 1 False)\<lparr>particlesLD := [0]\<rparr>"
     "\<lparr>address = 10, contextOwner = 1,
      system = \<lparr>particleMasses = [1, 1], constraints = [], forces = [DrudeForce []]\<rparr>,
      molecules = [[0], [1]]\<rparr>"]
  by (simp add: mixed_residue_def molecules_partition_def getNumParticles_def
        isParticleLD_def isParticleImage_def VVIntegrator_new_def upt_rec)

subsection \<open>The tables after initialize\<close>

text \<open>
  The degree-of-freedom accounting reads \<^verbatim>\<open>particleResId\<close> and \<^verbatim>\<open>residueInvMasses\<close> without a
  range check; the lemmas of this subsection show that the tables \<^verbatim>\<open>initialize\<close> builds from a
  molecule list that partitions the particles satisfy \<^verbatim>\<open>tables_cover\<close>.
\<close>

lemma build_tables_cover:
  assumes part: "molecules_partition c" and bt: "build_tables c s = Inr s1"
  shows "tables_cover (system c) s1"
proof -
  from build_tables_ok [OF part, of s] bt obtain tab rm where
    s1: "s1 = s\<lparr>particleResId := tab, residueMasses := rm,
                   residueInvMasses := residueInvMasses s @ map inverse_mass rm\<rparr>"
    and lt: "length tab = getNumParticles (system c)"
    and vt: "\<forall>j < length (molecules c). \<forall>p \<in> set (molecules c ! j). tab ! nat p = int j"
    and lr: "length rm = length (molecules c)"
    by auto
  from part have cov: "set (concat (molecules c)) = set (map int [0..<getNumParticles (system c)])"
    by (simp add: molecules_partition_def)
  have "\<forall>k < length tab. 0 \<le> tab ! k \<and> tab ! k < int (length (molecules c))"
  proof (intro allI impI)
    fix k assume "k < length tab"
    with lt cov have "int k \<in> set (concat (molecules c))" by simp
    then obtain m where "m \<in> set (molecules c)" "int k \<in> set m" by auto
    then obtain j where "j < length (molecules c)" "int k \<in> set (molecules c ! j)"
      by (metis in_set_conv_nth)
    with vt have "tab ! nat (int k) = int j" by blast
    with \<open>j < length (molecules c)\<close> show "0 \<le> tab ! k \<and> tab ! k < int (length (molecules c))"
      by simp
  qed
  then have "\<forall>k < length tab. 0 \<le> tab ! k \<and>
      tab ! k < int (length (residueInvMasses s)) + int (length (molecules c))"
    by fastforce
  then show ?thesis
    by (simp add: tables_cover_def s1 lt lr list_all_length)
qed

lemma same_roles_tables_cover:
  "same_roles s s' \<Longrightarrow> tables_cover sys s \<Longrightarrow> tables_cover sys s'"
  by (simp add: same_roles_def tables_cover_def)

lemma classify_same_roles:
  assumes "classify c s = Inr s'"
    and "getNumParticles (system c) \<le> length (particleResId s)"
  shows "same_roles s s'"
proof -
  have rng: "\<forall>p \<in> set (map int [0..<getNumParticles (system c)]).
               0 \<le> p \<and> p < int (length (particleResId s))"
    using assms(2) by auto
  from classify_NH_ok [OF rng] obtain s4 where
    c4: "classify_NH (map int [0..<getNumParticles (system c)]) s = Inr s4"
    and r4: "same_roles s s4" by blast
  from assms(1) c4 have "s' = s4"
    by (auto simp: classify_def Let_def split: sum.splits)
  with r4 show ?thesis by simp
qed

text \<open>After a successful \<^verbatim>\<open>initialize\<close> the tables of the integrator cover the system.\<close>

lemma initialize_tables_cover:
  assumes part: "molecules_partition c" and ini: "initialize c s = Inr s'"
  shows "tables_cover (system c) s'"
proof -
  from ini have own: "owner s = None \<or> owner s = Some (contextOwner c)"
    by (auto simp: initialize_def split: if_splits)
  from ini obtain s1 s2 where bt: "build_tables c s = Inr s1" and cl: "classify c s1 = Inr s2"
    and s': "s' = bind_context c s2"
    unfolding initialize_after_owner_check [OF own]
    by (auto split: sum.splits if_splits)
  from build_tables_cover [OF part bt] have t1: "tables_cover (system c) s1" .
  then have "getNumParticles (system c) \<le> length (particleResId s1)"
    by (simp add: tables_cover_def)
  from classify_same_roles [OF cl this] t1 have "tables_cover (system c) s2"
    by (rule same_roles_tables_cover)
  then show ?thesis by (simp add: s' bind_context_def tables_cover_def Let_def)
qed

section \<open>Properties of the code over doubles\<close>

subsection \<open>Double-precision arithmetic\<close>

lemma DBL_MAX_ge: "2 ^ 1000 \<le> DBL_MAX"
proof -
  have "(2::real) ^ 1000 = 2 ^ 29 * 2 ^ 971" by (simp only: power_add [symmetric]) simp
  also have "\<dots> \<le> (2 ^ 53 - 1) * 2 ^ 971" by (intro mult_right_mono) simp_all
  finally show ?thesis by (simp only: DBL_MAX_def)
qed

lemma DBL_MAX_pos: "0 < DBL_MAX" "1 \<le> DBL_MAX" "0 \<le> DBL_MAX"
proof -
  have "(1::real) \<le> 2 ^ 1000" by (rule one_le_power) simp
  with DBL_MAX_ge show "1 \<le> DBL_MAX" by linarith
  then show "0 < DBL_MAX" "0 \<le> DBL_MAX" by linarith+
qed

lemma le_DBL_MAX: "r \<le> 2 ^ 1000 \<Longrightarrow> r \<le> DBL_MAX"
  using DBL_MAX_ge by linarith

lemma overflow_in_range: "\<bar>r\<bar> \<le> DBL_MAX \<Longrightarrow> overflow r = Finite r"
  by (auto simp: overflow_def)

lemma overflow_small: "\<bar>r\<bar> \<le> 4294967296 \<Longrightarrow> overflow r = Finite r"
proof -
  assume "\<bar>r\<bar> \<le> 4294967296"
  moreover have "(4294967296::real) \<le> 2 ^ 1000" by simp
  ultimately have "\<bar>r\<bar> \<le> DBL_MAX" using DBL_MAX_ge by linarith
  then show ?thesis by (rule overflow_in_range)
qed

lemma overflow_0 [simp]: "overflow 0 = Finite 0"
  using DBL_MAX_pos by (simp add: overflow_in_range)

lemma overflow_1 [simp]: "overflow 1 = Finite 1"
  using DBL_MAX_pos by (simp add: overflow_in_range)

lemma fp_exp_0 [simp]: "fp_exp (Finite 0) = Finite 1"
  by simp







lemma DBL_MAX_less: "DBL_MAX < 2 ^ 1024"
proof -
  have "DBL_MAX < 2 ^ 53 * 2 ^ 971" unfolding DBL_MAX_def by (intro mult_strict_right_mono) simp_all
  also have "\<dots> = (2::real) ^ 1024" by (simp only: power_add [symmetric]) simp
  finally show ?thesis .
qed

lemma exp_overflows: "1024 \<le> x \<Longrightarrow> overflow (exp x) = PlusInfinity"
proof -
  assume x: "1024 \<le> x"
  have "(2::real) \<le> exp 1" using exp_ge_add_one_self [of 1] by simp
  then have "(2::real) ^ 1024 \<le> exp 1 ^ 1024" by (intro power_mono) simp_all
  also have "\<dots> = exp (1024 * 1)" by (simp only: exp_of_nat_mult [symmetric] of_nat_numeral)
  also have "\<dots> \<le> exp x" using x by simp
  finally have "DBL_MAX < exp x" using DBL_MAX_less by linarith
  then show ?thesis by (simp add: overflow_def)
qed

lemma list_all_update: "list_all P xs \<Longrightarrow> P v \<Longrightarrow> list_all P (xs[i := v])"
proof (induction xs arbitrary: i)
  case Nil
  then show ?case by simp
next
  case (Cons x xs)
  then show ?case by (cases i) simp_all
qed

subsection \<open>The Nose-Hoover chain over doubles\<close>

declare kick_outward_fp.simps [simp del]

lemma kick_inward_fp_length:
  "length (fst (kick_inward_fp dt4 dt8 edd k (ed, x))) = length ed"
  by (induction k arbitrary: ed x) (simp_all add: Let_def)

lemma kick_inward_fp_above:
  "k \<le> j \<Longrightarrow> fst (kick_inward_fp dt4 dt8 edd k (ed, x)) ! j = ed ! j"
  by (induction k arbitrary: ed x) (simp_all add: Let_def)

lemma advance_eta_fp_length: "length (advance_eta_fp dt2 ed n e) = length e"
proof -
  have "length (fold (\<lambda>ich e. e[ich := fp_add (e ! ich) (fp_mul dt2 (ed ! ich))]) ks e) = length e"
    for ks
    by (induction ks arbitrary: e) simp_all
  then show ?thesis by (simp add: advance_eta_fp_def)
qed

lemma advance_eta_fp_above: "n \<le> j \<Longrightarrow> advance_eta_fp dt2 ed n e ! j = e ! j"
proof -
  have "\<forall>k \<in> set ks. k \<noteq> j \<Longrightarrow>
        fold (\<lambda>ich e. e[ich := fp_add (e ! ich) (fp_mul dt2 (ed ! ich))]) ks e ! j = e ! j" for ks
    by (induction ks arbitrary: e) simp_all
  then show "n \<le> j \<Longrightarrow> advance_eta_fp dt2 ed n e ! j = e ! j"
    by (simp add: advance_eta_fp_def)
qed

lemma kick_outward_fp_stop:
  "\<not> ich < n \<Longrightarrow> kick_outward_fp dt4 dt8 kT mass n ich st = st"
  by (cases st) (simp add: kick_outward_fp.simps)

lemma kick_outward_fp_frame:
  "kick_outward_fp dt4 dt8 kT mass n ich (ed, edd, x) = (ed', edd', x') \<Longrightarrow>
   length ed' = length ed \<and> length edd' = length edd \<and>
   (\<forall>j. j < ich \<or> n \<le> j \<longrightarrow> ed' ! j = ed ! j \<and> edd' ! j = edd ! j)"
proof (induction "n - ich" arbitrary: ich ed edd x)
  case 0
  then have "\<not> ich < n" by simp
  with "0.prems" show ?case by (simp add: kick_outward_fp_stop)
next
  case (Suc m)
  then have lt: "ich < n" and m: "m = n - Suc ich" by simp_all
  define e where "e = fp_exp (fp_mul (fp_neg dt8) (ed ! (ich + 1)))"
  define ed1 where "ed1 = ed[ich := fp_mul (ed ! ich) e]"
  define edd1 where "edd1 = edd[ich := fp_div
        (fp_sub (fp_mul (fp_mul (mass ! (ich - 1)) (ed1 ! (ich - 1))) (ed1 ! (ich - 1))) kT)
        (mass ! ich)]"
  define ed2 where "ed2 = ed1[ich := fp_add (ed1 ! ich) (fp_mul (edd1 ! ich) dt4)]"
  define ed3 where "ed3 = ed2[ich := fp_mul (ed2 ! ich) e]"
  have step: "kick_outward_fp dt4 dt8 kT mass n ich (ed, edd, x)
        = kick_outward_fp dt4 dt8 kT mass n (Suc ich) (ed3, edd1, e)"
    by (subst kick_outward_fp.simps)
       (simp only: lt if_True Let_def e_def ed1_def edd1_def ed2_def ed3_def Suc_eq_plus1)
  from Suc.prems have r: "kick_outward_fp dt4 dt8 kT mass n (Suc ich) (ed3, edd1, e) = (ed', edd', x')"
    by (simp only: step)
  have l: "length ed3 = length ed" "length edd1 = length edd"
    by (simp_all add: ed3_def ed2_def ed1_def edd1_def)
  have o: "j \<noteq> ich \<Longrightarrow> ed3 ! j = ed ! j \<and> edd1 ! j = edd ! j" for j
    by (simp add: ed3_def ed2_def ed1_def edd1_def)
  from Suc.hyps(1) [OF m r] l o lt show ?case by auto
qed

lemma sub_iteration_fp_frame:
  assumes r: "sub_iteration_fp dt2 dt4 dt8 kT mass n ke2 ke2_target (c, x, f) = (c', x', f')"
    and n: "1 \<le> n"
  shows "nh_frame_fp n c c'"
proof -
  obtain ed1 x1 where k: "kick_inward_fp dt4 dt8 (eta_dotdot_fp c) n (eta_dot_fp c, x) = (ed1, x1)"
    by (cases "kick_inward_fp dt4 dt8 (eta_dotdot_fp c) n (eta_dot_fp c, x)")
  define f1 where "f1 = fp_mul f (fp_exp (fp_mul (fp_neg dt2) (ed1 ! 0)))"
  define edd4 where "edd4 = (eta_dotdot_fp c)
      [0 := fp_div (fp_sub (fp_mul (fp_mul ke2 f1) f1) ke2_target) (mass ! 0)]"
  define ed2 where "ed2 = ed1[0 := fp_mul (ed1 ! 0) x1]"
  define ed3 where "ed3 = ed2[0 := fp_add (ed2 ! 0) (fp_mul (edd4 ! 0) dt4)]"
  define ed4 where "ed4 = ed3[0 := fp_mul (ed3 ! 0) x1]"
  obtain ed edd expfac where
    o: "kick_outward_fp dt4 dt8 kT mass n 1 (ed4, edd4, x1) = (ed, edd, expfac)"
    by (cases "kick_outward_fp dt4 dt8 kT mass n 1 (ed4, edd4, x1)")
  have u: "sub_iteration_fp dt2 dt4 dt8 kT mass n ke2 ke2_target (c, x, f)
      = (\<lparr>eta_fp = advance_eta_fp dt2 ed1 n (eta_fp c), eta_dot_fp = ed, eta_dotdot_fp = edd\<rparr>,
         expfac, f1)"
    by (simp only: sub_iteration_fp_def prod.case Let_def k f1_def [symmetric]
          edd4_def [symmetric] ed2_def [symmetric] ed3_def [symmetric] ed4_def [symmetric] o)
  from r u have c': "c' = \<lparr>eta_fp = advance_eta_fp dt2 ed1 n (eta_fp c), eta_dot_fp = ed,
      eta_dotdot_fp = edd\<rparr>" by simp
  have l1: "length ed1 = length (eta_dot_fp c)" and a1: "\<forall>j\<ge>n. ed1 ! j = eta_dot_fp c ! j"
    using kick_inward_fp_length [of dt4 dt8 "eta_dotdot_fp c" n "eta_dot_fp c" x]
      kick_inward_fp_above [of n _ dt4 dt8 "eta_dotdot_fp c" "eta_dot_fp c" x] k by simp_all
  from kick_outward_fp_frame [OF o]
  have fr: "length ed = length ed4" "length edd = length edd4"
    "\<forall>j. j < 1 \<or> n \<le> j \<longrightarrow> ed ! j = ed4 ! j \<and> edd ! j = edd4 ! j" by simp_all
  show ?thesis
    unfolding nh_frame_fp_def c'
    using fr l1 a1 n
    by (auto simp: ed4_def ed3_def ed2_def edd4_def advance_eta_fp_length advance_eta_fp_above)
qed

lemma nh_frame_fp_refl: "nh_frame_fp n c c"
  by (simp add: nh_frame_fp_def)

lemma nh_frame_fp_trans: "nh_frame_fp n c c' \<Longrightarrow> nh_frame_fp n c' c'' \<Longrightarrow> nh_frame_fp n c c''"
  by (simp add: nh_frame_fp_def)

lemma nh_loop_fp_frame:
  "nh_loop_fp (sub_iteration_fp dt2 dt4 dt8 kT mass n ke2 ke2_target) k (c, x, f) = (c', x', f')
   \<Longrightarrow> 1 \<le> n \<Longrightarrow> nh_frame_fp n c c'"
proof (induction k arbitrary: c x f)
  case 0
  then show ?case by (simp add: nh_frame_fp_refl)
next
  case (Suc k)
  obtain c1 x1 f1 where
    s: "sub_iteration_fp dt2 dt4 dt8 kT mass n ke2 ke2_target (c, x, f) = (c1, x1, f1)"
    by (cases "sub_iteration_fp dt2 dt4 dt8 kT mass n ke2 ke2_target (c, x, f)")
  with Suc.prems(1) have
    l: "nh_loop_fp (sub_iteration_fp dt2 dt4 dt8 kT mass n ke2 ke2_target) k (c1, x1, f1)
        = (c', x', f')" by simp
  from sub_iteration_fp_frame [OF s Suc.prems(2)] Suc.IH [OF l Suc.prems(2)]
  show ?case by (rule nh_frame_fp_trans)
qed

lemma nh_prologue_fp_frame:
  "1 \<le> n \<Longrightarrow> nh_frame_fp n c (fst (nh_prologue_fp c mass ke2 ke2_target))"
  by (simp add: nh_prologue_fp_def nh_frame_fp_def Let_def)

lemma nh_prologue_fp_parts:
  "snd (nh_prologue_fp c mass ke2 ke2_target) = (Finite 0, Finite 1)"
  by (simp add: nh_prologue_fp_def Let_def)

text \<open>
  Claim C9. A call whose accesses are in bounds returns, whatever the values: a zero chain
  mass, an infinity or a NaN stops nothing. In a chain of at least one link the call leaves
  the terminator \<^verbatim>\<open>eta_dot[numNHChains]\<close> as it was, for every input and every
  \<^verbatim>\<open>loopsPerStep\<close>; it changes the length of no vector and no entry of \<^verbatim>\<open>eta\<close>, \<^verbatim>\<open>eta_dot\<close> or
  \<^verbatim>\<open>eta_dotdot\<close> from index \<^verbatim>\<open>numNHChains\<close> on.
\<close>

theorem propagateNHChain_fp_terminator_unchanged:
  assumes b: "nh_in_bounds_fp I c mass" and n: "1 \<le> numNHChains I"
  shows "\<exists>c' f. propagateNHChain_fp kb I c mass ke2 ke2_target T = Inr (c', f) \<and>
           eta_dot_fp c' ! nat (numNHChains I) = eta_dot_fp c ! nat (numNHChains I) \<and>
           nh_frame_fp (nat (numNHChains I)) c c'"
proof -
  define dt2 where "dt2 = fp_div (fp_div (Finite (stepSize I)) (Finite (real_of_int (loopsPerStep I))))
                     (Finite 2)"
  define body where "body = sub_iteration_fp dt2 (fp_div dt2 (Finite 2))
      (fp_div (fp_div dt2 (Finite 2)) (Finite 2)) (fp_mul kb T) mass (nat (numNHChains I))
      ke2 ke2_target"
  from n have n1: "1 \<le> nat (numNHChains I)" by simp
  obtain c0 where p: "nh_prologue_fp c mass ke2 ke2_target = (c0, Finite 0, Finite 1)"
    using nh_prologue_fp_parts [of c mass ke2 ke2_target]
    by (cases "nh_prologue_fp c mass ke2 ke2_target") simp
  from nh_prologue_fp_frame [OF n1, of c mass ke2 ke2_target] p
  have f0: "nh_frame_fp (nat (numNHChains I)) c c0" by simp
  obtain c' x f where l: "nh_loop_fp body (nat (loopsPerStep I)) (c0, Finite 0, Finite 1) = (c', x, f)"
    by (cases "nh_loop_fp body (nat (loopsPerStep I)) (c0, Finite 0, Finite 1)")
  from l have "nh_frame_fp (nat (numNHChains I)) c0 c'"
    unfolding body_def by (rule nh_loop_fp_frame [OF _ n1])
  with f0 have fr: "nh_frame_fp (nat (numNHChains I)) c c'" by (rule nh_frame_fp_trans)
  have "propagateNHChain_fp kb I c mass ke2 ke2_target T = Inr (c', f)"
    using b l by (simp add: propagateNHChain_fp_def Let_def p body_def dt2_def)
  with fr show ?thesis by (auto simp: nh_frame_fp_def)
qed

text \<open>
  A chain of one link with zero mass and the terminator at 5: the call returns, and the
  terminator is still 5.
\<close>

theorem propagateNHChain_fp_terminator_unchanged_witness:
  "\<exists>c' f. propagateNHChain_fp (Finite 1) (VVIntegrator_new 300 1 1 1 1 1 1 False)
             \<lparr>eta_fp = [Finite 0], eta_dot_fp = [Finite 0, Finite 5], eta_dotdot_fp = [Finite 0]\<rparr>
             [Finite 0] (Finite 2) (Finite 1) (Finite 300) = Inr (c', f)
          \<and> eta_dot_fp c' ! 1 = Finite 5 \<and> length (eta_dot_fp c') = 2"
  using propagateNHChain_fp_terminator_unchanged
    [of "VVIntegrator_new 300 1 1 1 1 1 1 False"
        "\<lparr>eta_fp = [Finite 0], eta_dot_fp = [Finite 0, Finite 5], eta_dotdot_fp = [Finite 0]\<rparr>"
        "[Finite 0]" "Finite 1" "Finite 2" "Finite 1" "Finite 300"]
  by (auto simp: VVIntegrator_new_def nh_in_bounds_fp_def nh_frame_fp_def)


lemma sub_iteration_fp_factor:
  "snd (snd (sub_iteration_fp dt2 dt4 dt8 kT mass n ke2 ke2_target (c, x, f))) =
   fp_mul f (fp_exp (fp_mul (fp_neg dt2)
      (fst (kick_inward_fp dt4 dt8 (eta_dotdot_fp c) n (eta_dot_fp c, x)) ! 0)))"
  by (simp add: sub_iteration_fp_def Let_def split: prod.splits)







text \<open>
  The second case of the theorem needs \<^verbatim>\<open>eta_dotdot\<close> at zero even when no chain mass is zero.
  With \<^verbatim>\<open>eta_dotdot[1] = -8\<close> and a step size of 64 the first inward pass gives
  \<^verbatim>\<open>eta_dot[1] = -128\<close>, \<^verbatim>\<open>expfac = exp(1024)\<close> overflows to \<open>+inf\<close>, \<^verbatim>\<open>eta_dot[0]\<close> becomes
  \<open>0 * inf\<close> and the factor is NaN.
\<close>

lemma propagateNHChain_fp_overflow_NaN:
  "\<exists>c'. propagateNHChain_fp (Finite 1) (VVIntegrator_new 300 1 1 1 64 2 1 False)
     \<lparr>eta_fp = [Finite 0, Finite 0], eta_dot_fp = [Finite 0, Finite 0, Finite 0],
      eta_dotdot_fp = [Finite 0, Finite (- 8)]\<rparr>
     [Finite 1, Finite 1] (Finite 1) (Finite 1) (Finite 300) = Inr (c', NaN)"
proof -
  define c where "c = \<lparr>eta_fp = [Finite 0, Finite 0], eta_dot_fp = [Finite 0, Finite 0, Finite 0],
      eta_dotdot_fp = [Finite 0, Finite (- 8)]\<rparr>"
  define body where "body = sub_iteration_fp (Finite 32) (Finite 16) (Finite 8)
      (Finite 300) [Finite 1, Finite 1] 2 (Finite 1) (Finite 1)"
  have k: "fst (kick_inward_fp (Finite 16) (Finite 8) (eta_dotdot_fp c) 2
              (eta_dot_fp c, Finite 0)) ! 0 = NaN"
    by (simp add: c_def numeral_2_eq_2 Let_def overflow_small exp_overflows)
  have s: "snd (snd (body (c, Finite 0, Finite 1))) = NaN"
    unfolding body_def sub_iteration_fp_factor k by simp
  have p: "nh_prologue_fp c [Finite 1, Finite 1] (Finite 1) (Finite 1) = (c, Finite 0, Finite 1)"
    by (simp add: nh_prologue_fp_def c_def fp_sub_def Let_def)
  obtain c2 x2 where l: "body (c, Finite 0, Finite 1) = (c2, x2, NaN)"
    using s by (cases "body (c, Finite 0, Finite 1)") simp
  have len: "length (eta_fp c) = 2" "length (eta_dot_fp c) = 3" "length (eta_dotdot_fp c) = 2"
    by (simp_all add: c_def)
  have "propagateNHChain_fp (Finite 1) (VVIntegrator_new 300 1 1 1 64 2 1 False) c
          [Finite 1, Finite 1] (Finite 1) (Finite 1) (Finite 300) = Inr (c2, NaN)"
    by (simp add: propagateNHChain_fp_def VVIntegrator_new_def nh_in_bounds_fp_def
          Let_def overflow_small p l [unfolded body_def] len)
  then show ?thesis unfolding c_def by blast
qed

text \<open>
  The chain of a temperature group without degrees of freedom (zero mass, chain at rest),
  with two sub-iterations: the first divides \<open>1 / 0\<close> and leaves \<^verbatim>\<open>eta_dot[0]\<close> at plus
  infinity, the second multiplies the factor by \<open>exp (- inf) = 0\<close>. The call returns the
  factor 0.
\<close>

lemma propagateNHChain_fp_zero_mass_factor:
  "\<exists>c'. propagateNHChain_fp (Finite (83144626 / 10000000000))
     (VVIntegrator_new 300 1 1 1 (1 / 1000) 1 2 False)
     \<lparr>eta_fp = [Finite 0], eta_dot_fp = [Finite 0, Finite 0], eta_dotdot_fp = [Finite 0]\<rparr>
     [Finite 0] (Finite 1) (Finite 0) (Finite 300) = Inr (c', Finite 0)"
proof -
  define c where "c = \<lparr>eta_fp = [Finite 0], eta_dot_fp = [Finite 0, Finite 0],
      eta_dotdot_fp = [Finite 0]\<rparr>"
  define c1 where "c1 = \<lparr>eta_fp = [Finite 0], eta_dot_fp = [PlusInfinity, Finite 0],
      eta_dotdot_fp = [PlusInfinity]\<rparr>"
  define kT where "kT = fp_mul (Finite (83144626 / 10000000000)) (Finite 300)"
  define body where "body = sub_iteration_fp (Finite (1 / 4000)) (Finite (1 / 8000))
      (Finite (1 / 16000)) kT [Finite 0] (Suc 0) (Finite 1) (Finite 0)"
  have ko: "kick_outward_fp (Finite (1 / 8000)) (Finite (1 / 16000)) kT [Finite 0] (Suc 0) (Suc 0) st
      = st" for st
    by (rule kick_outward_fp_stop) simp
  have s1: "body (c, Finite 0, Finite 1) = (c1, Finite 1, Finite 1)"
    unfolding body_def sub_iteration_fp_def prod.case Let_def
    by (simp add: c_def c1_def ko advance_eta_fp_def fp_sub_def overflow_small Let_def)
  have k2: "fst (kick_inward_fp (Finite (1 / 8000)) (Finite (1 / 16000)) (eta_dotdot_fp c1) (Suc 0)
              (eta_dot_fp c1, Finite 1)) ! 0 = PlusInfinity"
    by (simp add: c1_def Let_def)
  have s2: "snd (snd (body (c1, Finite 1, Finite 1))) = Finite 0"
    unfolding body_def sub_iteration_fp_factor k2 by simp
  have p: "nh_prologue_fp c [Finite 0] (Finite 1) (Finite 0) = (c, Finite 0, Finite 1)"
    by (simp add: nh_prologue_fp_def c_def Let_def)
  obtain c2 x2 where l: "nh_loop_fp body 2 (c, Finite 0, Finite 1) = (c2, x2, Finite 0)"
    using s1 s2 by (cases "body (c1, Finite 1, Finite 1)") (simp add: numeral_2_eq_2)
  have len: "length (eta_fp c) = 1" "length (eta_dot_fp c) = 2" "length (eta_dotdot_fp c) = 1"
    by (simp_all add: c_def)
  have d: "fp_div (fp_div (Finite (1 / 1000)) (Finite 2)) (Finite 2) = Finite (1 / 4000)"
    "fp_div (Finite (1 / 4000)) (Finite 2) = Finite (1 / 8000)"
    "fp_div (Finite (1 / 8000)) (Finite 2) = Finite (1 / 16000)"
    by (simp_all add: overflow_small)
  define I where "I = VVIntegrator_new 300 1 1 1 (1 / 1000) 1 2 False"
  have I: "Finite (stepSize I) = Finite (1 / 1000)"
    "Finite (real_of_int (loopsPerStep I)) = Finite 2"
    "nat (numNHChains I) = Suc 0" "nat (loopsPerStep I) = 2"
    by (simp_all add: I_def VVIntegrator_new_def)
  have b: "nh_in_bounds_fp I c [Finite 0]"
    by (simp add: nh_in_bounds_fp_def I_def VVIntegrator_new_def len)
  have "propagateNHChain_fp (Finite (83144626 / 10000000000)) I c
          [Finite 0] (Finite 1) (Finite 0) (Finite 300) = Inr (c2, Finite 0)"
    by (simp only: propagateNHChain_fp_def Let_def b I d p l [unfolded body_def kT_def]
          not_True_eq_False if_False prod.case)
  then show ?thesis unfolding c_def I_def by blast
qed

subsection \<open>Degrees of freedom over doubles\<close>

lemma below_mono: "below B x \<Longrightarrow> B \<le> C \<Longrightarrow> below C x"
  by (cases x) simp_all

lemma below_not_NaN: "below B x \<Longrightarrow> not_NaN x"
  by (cases x) simp_all

lemma below_add: "below B x \<Longrightarrow> 0 \<le> t \<Longrightarrow> B + t \<le> DBL_MAX \<Longrightarrow> below (B + t) (fp_add x (Finite t))"
  by (cases x) (auto simp: overflow_def)

lemma below_sub_finite: "below B x \<Longrightarrow> 0 \<le> t \<Longrightarrow> B \<le> DBL_MAX \<Longrightarrow> below B (fp_sub x (Finite t))"
  by (cases x) (auto simp: overflow_def fp_sub_def)

lemma below_sub_inf: "below B x \<Longrightarrow> below B (fp_sub x PlusInfinity)"
  by (cases x) (auto simp: fp_sub_def)

text \<open>The term \<^verbatim>\<open>3 * mass * resInvMass\<close> of a massive particle: a number at least 0, or plus infinity.\<close>

lemma com_term:
  assumes "0 < m" "3 * m \<le> DBL_MAX" "case w of None \<Rightarrow> True | Some v \<Rightarrow> 0 \<le> v"
  shows "(\<exists>t\<ge>0. fp_mul (fp_mul (Finite 3) (Finite m)) (inverse_mass_fp w) = Finite t) \<or>
         fp_mul (fp_mul (Finite 3) (Finite m)) (inverse_mass_fp w) = PlusInfinity"
proof -
  from assms(1,2) have "\<bar>3 * m\<bar> \<le> DBL_MAX" by simp
  then have a: "overflow (3 * m) = Finite (3 * m)" by (rule overflow_in_range)
  show ?thesis
  proof (cases w)
    case None
    with assms(1) show ?thesis by (simp add: a inverse_mass_fp_def)
  next
    case (Some v)
    with assms(3) have v: "0 \<le> v" by simp
    with assms(1) have nn: "0 \<le> 3 * m * v" by simp
    have e: "fp_mul (fp_mul (Finite 3) (Finite m)) (inverse_mass_fp w) = overflow (3 * m * v)"
      by (simp add: a Some inverse_mass_fp_def)
    show ?thesis
    proof (cases "DBL_MAX < 3 * m * v")
      case True
      then show ?thesis unfolding e by (simp add: overflow_def)
    next
      case False
      with nn DBL_MAX_pos have "overflow (3 * m * v) = Finite (3 * m * v)"
        by (intro overflow_in_range) simp
      with nn show ?thesis unfolding e by blast
    qed
  qed
qed

lemma below_sub_term:
  assumes "below B x" "B \<le> DBL_MAX"
    "(\<exists>t\<ge>0. y = Finite t) \<or> y = PlusInfinity"
  shows "below B (fp_sub x y)"
  using assms below_sub_finite below_sub_inf by blast

lemma not_NaN_sub: "not_NaN x \<Longrightarrow> not_NaN (fp_sub x (Finite t))"
  by (cases x) (auto simp: fp_sub_def overflow_def)

lemma fp_le_add: "fp_le (Finite 0) x \<Longrightarrow> 0 \<le> t \<Longrightarrow> fp_le (Finite 0) (fp_add x (Finite t))"
  using DBL_MAX_pos by (cases x) (auto simp: overflow_def)

lemma std_max_fp_nonneg: "not_NaN d \<Longrightarrow> fp_le (Finite 0) (std_max_fp d (Finite 0))"
  by (cases d) (auto simp: std_max_fp_def)

lemma dof_particles_fp_inv:
  assumes tc: "tables_cover sys I" and mr: "masses_in_range sys" and inn: "inverse_masses_nonneg I"
  shows "\<forall>k \<in> set ks. k < getNumParticles sys \<Longrightarrow> TG_ATOM < length dof \<Longrightarrow>
         below B (dof ! TG_ATOM) \<Longrightarrow> B + 3 * real (length ks) \<le> DBL_MAX \<Longrightarrow>
         \<exists>dof'. dof_particles_fp sys I (map int ks) dof = Inr dof' \<and> length dof' = length dof \<and>
                below (B + 3 * real (length ks)) (dof' ! TG_ATOM) \<and>
                (\<forall>g. g \<noteq> TG_ATOM \<longrightarrow> dof' ! g = dof ! g)"
proof (induction ks arbitrary: dof B)
  case Nil
  then show ?case by simp
next
  case (Cons k ks)
  then have k: "k < getNumParticles sys" by simp
  from tables_cover_lookup [OF tc k] obtain r w where
    r: "getParticleResId I (int k) = Inr r" and w: "getResInvMass I r = Inr w"
    and wv: "w = residueInvMasses I ! nat r" and rl: "nat r < length (residueInvMasses I)" by blast
  from inn wv rl have wn: "case w of None \<Rightarrow> True | Some v \<Rightarrow> 0 \<le> v"
    by (simp add: inverse_masses_nonneg_def list_all_length)
  define m where "m = particleMasses sys ! k"
  from mr k have mm: "0 \<le> m" "3 * m \<le> DBL_MAX"
    by (simp_all add: masses_in_range_def list_all_length getNumParticles_def m_def)
  from Cons.prems have ks: "\<forall>k \<in> set ks. k < getNumParticles sys" by simp
  from Cons.prems(4) have b3: "B + 3 \<le> DBL_MAX" and bb: "B \<le> DBL_MAX"
    and br: "B + 3 + 3 * real (length ks) \<le> DBL_MAX" "B + 3 * real (length ks) \<le> DBL_MAX"
    by simp_all
  show ?case
  proof (cases "isParticleNH I (int k) \<and> m \<noteq> 0")
    case True
    with mm have mp: "0 < m" by simp
    define dof1 where "dof1 = dof[TG_ATOM := fp_add (dof ! TG_ATOM) (Finite 3)]"
    have b1: "below (B + 3) (dof1 ! TG_ATOM)"
      using below_add [OF Cons.prems(3) _ b3] Cons.prems(2) by (simp add: dof1_def)
    have l1: "TG_ATOM < length dof1" "length dof1 = length dof"
      using Cons.prems(2) by (simp_all add: dof1_def)
    have o1: "g \<noteq> TG_ATOM \<Longrightarrow> dof1 ! g = dof ! g" for g by (simp add: dof1_def)
    show ?thesis
    proof (cases "useCOMTempGroup I")
      case com: True
      define y where "y = fp_mul (fp_mul (Finite 3) (Finite m)) (inverse_mass_fp w)"
      define dof2 where "dof2 = dof1[TG_ATOM := fp_sub (dof1 ! TG_ATOM) y]"
      from com_term [OF mp mm(2) wn] have "(\<exists>t\<ge>0. y = Finite t) \<or> y = PlusInfinity"
        by (simp only: y_def)
      from below_sub_term [OF b1 b3 this] l1 have b2: "below (B + 3) (dof2 ! TG_ATOM)"
        by (simp add: dof2_def)
      have l2: "TG_ATOM < length dof2" "length dof2 = length dof" using l1 by (simp_all add: dof2_def)
      have o2: "g \<noteq> TG_ATOM \<Longrightarrow> dof2 ! g = dof ! g" for g by (simp add: dof2_def o1)
      have e: "dof_particles_fp sys I (map int (k # ks)) dof = dof_particles_fp sys I (map int ks) dof2"
        using True com r w by (simp add: Let_def m_def dof2_def dof1_def y_def)
      from Cons.IH [OF ks l2(1) b2 br(1)] l2 o2 show ?thesis
        unfolding e by (auto simp: algebra_simps)
    next
      case False
      have e: "dof_particles_fp sys I (map int (k # ks)) dof = dof_particles_fp sys I (map int ks) dof1"
        using True False r w by (simp add: Let_def m_def dof1_def)
      from Cons.IH [OF ks l1(1) b1 br(1)] l1 o1 show ?thesis
        unfolding e by (auto simp: algebra_simps)
    qed
  next
    case False
    have e: "dof_particles_fp sys I (map int (k # ks)) dof = dof_particles_fp sys I (map int ks) dof"
      using False r w by (auto simp: Let_def m_def)
    from Cons.IH [OF ks Cons.prems(2,3) br(2)] obtain dof' where
      d: "dof_particles_fp sys I (map int ks) dof = Inr dof'" "length dof' = length dof"
        "below (B + 3 * real (length ks)) (dof' ! TG_ATOM)" "\<forall>g. g \<noteq> TG_ATOM \<longrightarrow> dof' ! g = dof ! g"
      by blast
    from below_mono [OF d(3), of "B + 3 * real (length (k # ks))"]
    have "below (B + 3 * real (length (k # ks))) (dof' ! TG_ATOM)" by simp
    with d show ?thesis unfolding e by blast
  qed
qed

lemma dof_drude_fp_inv:
  "length dof = NUM_TG \<Longrightarrow> below B (dof ! TG_ATOM) \<Longrightarrow> B \<le> DBL_MAX \<Longrightarrow>
   fp_le (Finite 0) (dof ! TG_DRUDE) \<Longrightarrow>
   length (dof_drude_fp I pairs dof) = NUM_TG \<and> below B (dof_drude_fp I pairs dof ! TG_ATOM) \<and>
   fp_le (Finite 0) (dof_drude_fp I pairs dof ! TG_DRUDE) \<and>
   dof_drude_fp I pairs dof ! TG_COM = dof ! TG_COM"
proof (induction I pairs dof rule: dof_drude_fp.induct)
  case (1 integrator dof)
  then show ?case by simp
next
  case (2 integrator p p1 rest dof)
  show ?case
  proof (cases "isParticleNH integrator p")
    case True
    define dof1 where "dof1 = dof[TG_ATOM := fp_sub (dof ! TG_ATOM) (Finite 3)]"
    define dof2 where "dof2 = dof1[TG_DRUDE := fp_add (dof1 ! TG_DRUDE) (Finite 3)]"
    have a: "length dof2 = NUM_TG" using "2.prems"(1) by (simp add: dof2_def dof1_def)
    have b: "below B (dof2 ! TG_ATOM)"
      using below_sub_finite [OF "2.prems"(2) _ "2.prems"(3), of 3] "2.prems"(1)
      by (simp add: dof2_def dof1_def TG_ATOM_def TG_DRUDE_def NUM_TG_def)
    have c: "fp_le (Finite 0) (dof2 ! TG_DRUDE)"
      using fp_le_add [OF "2.prems"(4), of 3] "2.prems"(1)
      by (simp add: dof2_def dof1_def TG_ATOM_def TG_DRUDE_def NUM_TG_def)
    have d: "dof2 ! TG_COM = dof ! TG_COM"
      by (simp add: dof2_def dof1_def TG_ATOM_def TG_DRUDE_def TG_COM_def)
    from "2.IH"(1) [OF True dof1_def dof2_def a b "2.prems"(3) c] d True
    show ?thesis by (simp add: Let_def dof1_def dof2_def)
  next
    case False
    with "2.IH"(2) [OF False "2.prems"] show ?thesis by simp
  qed
qed

lemma dof_constraints_fp_inv:
  "length dof = NUM_TG \<Longrightarrow> below B (dof ! TG_ATOM) \<Longrightarrow> B \<le> DBL_MAX \<Longrightarrow>
   length (dof_constraints_fp I cs dof) = NUM_TG \<and>
   below B (dof_constraints_fp I cs dof ! TG_ATOM) \<and>
   (\<forall>g. g \<noteq> TG_ATOM \<longrightarrow> dof_constraints_fp I cs dof ! g = dof ! g)"
proof (induction I cs dof rule: dof_constraints_fp.induct)
  case (1 integrator dof)
  then show ?case by simp
next
  case (2 integrator p p1 distance rest dof)
  show ?case
  proof (cases "isParticleNH integrator p")
    case True
    define dof1 where "dof1 = dof[TG_ATOM := fp_sub (dof ! TG_ATOM) (Finite 1)]"
    have a: "length dof1 = NUM_TG" using "2.prems"(1) by (simp add: dof1_def)
    have b: "below B (dof1 ! TG_ATOM)"
      using below_sub_finite [OF "2.prems"(2) _ "2.prems"(3), of 1] "2.prems"(1)
      by (simp add: dof1_def TG_ATOM_def NUM_TG_def)
    have o: "g \<noteq> TG_ATOM \<Longrightarrow> dof1 ! g = dof ! g" for g by (simp add: dof1_def)
    from "2.IH"(1) [OF True a [unfolded dof1_def] b [unfolded dof1_def] "2.prems"(3)] o True
    show ?thesis by (simp add: dof1_def)
  next
    case False
    with "2.IH"(2) [OF False "2.prems"] show ?thesis by simp
  qed
qed

lemma dof_cmmotion_fp_inv:
  "length dof = NUM_TG \<Longrightarrow> list_all not_NaN dof \<Longrightarrow>
   length (dof_cmmotion_fp I fs dof) = NUM_TG \<and> list_all not_NaN (dof_cmmotion_fp I fs dof)"
proof (induction I fs dof rule: dof_cmmotion_fp.induct)
  case (2 integrator fs dof)
  then have "not_NaN (dof ! TG_COM)" "not_NaN (dof ! TG_ATOM)"
    by (simp_all add: list_all_length TG_COM_def TG_ATOM_def NUM_TG_def)
  then have "not_NaN (fp_sub (dof ! TG_COM) (Finite 3))" "not_NaN (fp_sub (dof ! TG_ATOM) (Finite 3))"
    by (simp_all add: not_NaN_sub)
  with 2 show ?case
    by (simp add: list_all_update)
qed simp_all

text \<open>
  Claim C7, as the code has it. Take a configuration whose particle masses are at least 0
  and small enough for \<^verbatim>\<open>3 * mass\<close> not to overflow, with fewer than \<open>2^31\<close> particles, and an
  integrator whose tables cover the system, as \<^verbatim>\<open>initialize\<close> builds them. Whatever the
  Drude pairs, constraints, grouping choice and forces, the accounting completes with one
  count for each of the three temperature groups (Atom, CenterOfMass, Drude), and every
  count is at least 0; a residue of mass zero stops nothing.
\<close>

theorem tempGroupDof_fp_nonneg:
  assumes tc: "tables_cover sys I" and inn: "inverse_masses_nonneg I"
    and mr: "masses_in_range sys" and np: "getNumParticles sys < 2 ^ 31"
  shows "\<exists>dof. tempGroupDof_fp sys I force = Inr dof \<and> length dof = NUM_TG \<and>
               list_all (fp_le (Finite 0)) dof"
proof -
  let ?n = "getNumParticles sys"
  define B where "B = 3 * real ?n"
  from np have "real ?n \<le> 2 ^ 31"
    by (metis less_imp_le of_nat_le_iff of_nat_numeral of_nat_power)
  then have "B \<le> 2 ^ 2 * 2 ^ 31" unfolding B_def by simp
  also have "\<dots> = (2::real) ^ 33" by simp
  also have "\<dots> \<le> 2 ^ 1000" by (rule power_increasing) simp_all
  finally have Bm: "B \<le> DBL_MAX" using DBL_MAX_ge by linarith
  have "\<exists>dof'. dof_particles_fp sys I (map int [0..<?n]) (replicate NUM_TG (Finite 0)) = Inr dof' \<and>
      length dof' = length (replicate NUM_TG (Finite 0)) \<and>
      below (0 + 3 * real (length [0..<?n])) (dof' ! TG_ATOM) \<and>
      (\<forall>g. g \<noteq> TG_ATOM \<longrightarrow> dof' ! g = replicate NUM_TG (Finite 0) ! g)"
    using Bm by (intro dof_particles_fp_inv [OF tc mr inn])
                (simp_all add: TG_ATOM_def NUM_TG_def B_def)
  then obtain dof1 where
    d1: "dof_particles_fp sys I (map int [0..<?n]) (replicate NUM_TG (Finite 0)) = Inr dof1"
    and l1: "length dof1 = NUM_TG" and a1: "below B (dof1 ! TG_ATOM)"
    and o1: "dof1 ! TG_COM = Finite 0" "dof1 ! TG_DRUDE = Finite 0"
    by (auto simp: B_def TG_ATOM_def TG_COM_def TG_DRUDE_def NUM_TG_def)
  define dof2 where "dof2 = (case force of None \<Rightarrow> dof1 | Some pairs \<Rightarrow> dof_drude_fp I pairs dof1)"
  have i2: "length dof2 = NUM_TG \<and> below B (dof2 ! TG_ATOM) \<and> fp_le (Finite 0) (dof2 ! TG_DRUDE) \<and>
      dof2 ! TG_COM = dof1 ! TG_COM"
  proof (cases force)
    case None
    with l1 a1 o1 show ?thesis by (simp add: dof2_def)
  next
    case (Some pairs)
    from dof_drude_fp_inv [OF l1 a1 Bm, of I pairs] o1 show ?thesis by (simp add: dof2_def Some)
  qed
  define dof3 where "dof3 = dof_constraints_fp I (constraints sys) dof2"
  from dof_constraints_fp_inv [of dof2 B I "constraints sys"] i2 Bm
  have i3: "length dof3 = NUM_TG" "below B (dof3 ! TG_ATOM)"
    "\<forall>g. g \<noteq> TG_ATOM \<longrightarrow> dof3 ! g = dof2 ! g"
    by (simp_all add: dof3_def)
  define dof4 where "dof4 = (if useCOMTempGroup I
      then dof3[TG_COM := Finite (real (3 * length (residuesNH I)))] else dof3)"
  have n3: "not_NaN (dof3 ! TG_ATOM)" "not_NaN (dof3 ! TG_COM)" "not_NaN (dof3 ! TG_DRUDE)"
  proof -
    show "not_NaN (dof3 ! TG_ATOM)" using i3(2) by (rule below_not_NaN)
    from i3(3) i2 o1 have "dof3 ! TG_COM = Finite 0"
      by (simp add: TG_ATOM_def TG_COM_def)
    then show "not_NaN (dof3 ! TG_COM)" by simp
    from i3(3) have "dof3 ! TG_DRUDE = dof2 ! TG_DRUDE" by (simp add: TG_ATOM_def TG_DRUDE_def)
    with i2 show "not_NaN (dof3 ! TG_DRUDE)" by (cases "dof2 ! TG_DRUDE") simp_all
  qed
  have all3: "list_all not_NaN dof3"
  proof -
    have "\<forall>g<3. not_NaN (dof3 ! g)"
      using n3 by (auto simp: TG_ATOM_def TG_COM_def TG_DRUDE_def less_Suc_eq numeral_3_eq_3
                     numeral_2_eq_2)
    with i3(1) show ?thesis by (simp add: list_all_length NUM_TG_def)
  qed
  have i4: "length dof4 = NUM_TG" "list_all not_NaN dof4"
    using i3(1) all3 by (simp_all add: dof4_def list_all_update)
  define dof5 where "dof5 = dof_cmmotion_fp I (forces sys) dof4"
  from dof_cmmotion_fp_inv [OF i4, of I "forces sys"]
  have i5: "length dof5 = NUM_TG" "list_all not_NaN dof5" by (simp_all add: dof5_def)
  have r: "tempGroupDof_fp sys I force = Inr (map (\<lambda>d. std_max_fp d (Finite 0)) dof5)"
    by (simp add: tempGroupDof_fp_def d1 Let_def dof2_def dof3_def dof4_def dof5_def)
  from i5(2) have "list_all (fp_le (Finite 0)) (map (\<lambda>d. std_max_fp d (Finite 0)) dof5)"
    by (simp add: list_all_length std_max_fp_nonneg)
  with r i5(1) show ?thesis by simp
qed

text \<open>
  A frozen particle (mass 0) alone in its residue and a massive one, both Nose-Hoover, with
  centre-of-mass grouping, a constraint and a \<^verbatim>\<open>CMMotionRemover\<close>: the raw Atom count is
  \<open>3 - 3 - 1 = -1\<close>, and the accounting returns 0 for it.
\<close>

theorem tempGroupDof_fp_nonneg_witness:
  "tempGroupDof_fp
     \<lparr>particleMasses = [0, 12], constraints = [(1, 0, 1)],
      forces = [DrudeForce [], CMMotionRemover]\<rparr>
     ((VVIntegrator_new 300 1 1 1 1 1 1 True)
        \<lparr>particlesNH := [0, 1], residuesNH := [0, 1], particleResId := [0, 1],
          residueInvMasses := [None, Some (1 / 12)]\<rparr>)
     (Some []) = Inr [Finite 0, Finite 3, Finite 0]
   \<and> (\<exists>dof. tempGroupDof_fp
     \<lparr>particleMasses = [0, 12], constraints = [(1, 0, 1)],
      forces = [DrudeForce [], CMMotionRemover]\<rparr>
     ((VVIntegrator_new 300 1 1 1 1 1 1 True)
        \<lparr>particlesNH := [0, 1], residuesNH := [0, 1], particleResId := [0, 1],
          residueInvMasses := [None, Some (1 / 12)]\<rparr>)
     (Some []) = Inr dof \<and> length dof = NUM_TG \<and> list_all (fp_le (Finite 0)) dof)"
  using tempGroupDof_fp_nonneg
    [of "\<lparr>particleMasses = [0, 12], constraints = [(1, 0, 1)],
          forces = [DrudeForce [], CMMotionRemover]\<rparr>"
        "(VVIntegrator_new 300 1 1 1 1 1 1 True)
           \<lparr>particlesNH := [0, 1], residuesNH := [0, 1], particleResId := [0, 1],
             residueInvMasses := [None, Some (1 / 12)]\<rparr>"
        "Some []"]
  by (simp add: tempGroupDof_fp_def tables_cover_def inverse_masses_nonneg_def masses_in_range_def
        getNumParticles_def VVIntegrator_new_def getParticleResId_def getResInvMass_def
        isParticleNH_def std_max_fp_def inverse_mass_fp_def fp_sub_def Let_def
        TG_ATOM_def TG_COM_def TG_DRUDE_def NUM_TG_def upt_rec numeral_3_eq_3
        overflow_small le_DBL_MAX)

text \<open>
  The claim as it stands fails for a residue of two Nose-Hoover particles of masses 1 and
  -1 under centre-of-mass grouping. \<^verbatim>\<open>initialize\<close> binds the integrator; the residue has mass
  0 and inverse mass \<open>+inf\<close>; the Atom count goes to \<open>3 - inf = -inf\<close> at the first particle
  and to \<open>-inf + inf\<close> at the second, a NaN, which \<^verbatim>\<open>std::max(NaN, 0)\<close> returns as it is.
\<close>

theorem tempGroupDof_fp_negative_mass_NaN:
  "\<exists>s'. initialize
           \<lparr>address = 10, contextOwner = 1,
            system = \<lparr>particleMasses = [1, - 1], constraints = [], forces = [DrudeForce []]\<rparr>,
            molecules = [[0, 1]]\<rparr>
           (VVIntegrator_new 300 1 1 1 1 1 1 True) = Inr s' \<and>
         tempGroupDof_fp \<lparr>particleMasses = [1, - 1], constraints = [], forces = [DrudeForce []]\<rparr>
           s' (Some []) = Inr [NaN, Finite 3, Finite 0]"
  by (simp add: initialize_def build_tables_def classify_def bind_context_def
        getNumParticles_def VVIntegrator_new_def getParticleResId_def getResInvMass_def
        isParticleNH_def isParticleLD_def isParticleImage_def inverse_mass_def
        tempGroupDof_fp_def std_max_fp_def inverse_mass_fp_def fp_sub_def Let_def
        TG_ATOM_def TG_COM_def TG_DRUDE_def NUM_TG_def upt_rec numeral_3_eq_3
        overflow_small)

lemma add_masses_nonneg:
  "add_masses rs rm = Inr rm' \<Longrightarrow> \<forall>x \<in> set rs. 0 \<le> snd x \<Longrightarrow> list_all (\<lambda>m. 0 \<le> m) rm \<Longrightarrow>
   list_all (\<lambda>m. 0 \<le> m) rm'"
proof (induction rs arbitrary: rm)
  case Nil
  then show ?case by simp
next
  case (Cons x rs)
  obtain r m where x: "x = (r, m)" by (cases x)
  from Cons.prems(1) x have r: "0 \<le> r" "r < int (length rm)"
    and a: "add_masses rs (rm[nat r := rm ! nat r + m]) = Inr rm'"
    by (simp_all split: if_splits)
  from r have "nat r < length rm" by linarith
  with Cons.prems(3) have "0 \<le> rm ! nat r" by (simp add: list_all_length)
  moreover from Cons.prems(2) x have "0 \<le> m" by simp
  ultimately have "0 \<le> rm ! nat r + m" by simp
  with Cons.prems(3) have "list_all (\<lambda>m. 0 \<le> m) (rm[nat r := rm ! nat r + m])"
    by (rule list_all_update)
  with Cons.IH [OF a] Cons.prems(2) show ?case by simp
qed

lemma build_tables_inverse_masses:
  assumes bt: "build_tables c s = Inr s1"
    and m: "list_all (\<lambda>m. 0 \<le> m) (particleMasses (system c))"
    and i: "inverse_masses_nonneg s"
  shows "inverse_masses_nonneg s1"
proof -
  from bt obtain tab rm where
    a: "add_masses (zip tab (particleMasses (system c))) (replicate (length (molecules c)) 0) = Inr rm"
    and r: "residueInvMasses s1 = residueInvMasses s @ map inverse_mass rm"
    by (auto simp: build_tables_def Let_def split: sum.splits)
  from m have "\<forall>x \<in> set (zip tab (particleMasses (system c))). 0 \<le> snd x"
    by (auto simp: list_all_iff dest: set_zip_rightD)
  from add_masses_nonneg [OF a this] have "list_all (\<lambda>m. 0 \<le> m) rm" by (simp add: list_all_iff)
  then have "list_all (\<lambda>w. case w of None \<Rightarrow> True | Some v \<Rightarrow> 0 \<le> v) (map inverse_mass rm)"
    by (induction rm) (simp_all add: inverse_mass_def)
  with i show ?thesis by (simp add: inverse_masses_nonneg_def r)
qed

text \<open>
  After a successful \<^verbatim>\<open>initialize\<close> on a system whose masses are at least 0, no inverse
  residue mass of the integrator is negative.
\<close>

lemma initialize_inverse_masses_nonneg:
  assumes part: "molecules_partition c" and ini: "initialize c s = Inr s'"
    and m: "list_all (\<lambda>m. 0 \<le> m) (particleMasses (system c))"
    and i: "inverse_masses_nonneg s"
  shows "inverse_masses_nonneg s'"
proof -
  from ini have own: "owner s = None \<or> owner s = Some (contextOwner c)"
    by (auto simp: initialize_def split: if_splits)
  from ini obtain s1 s2 where bt: "build_tables c s = Inr s1" and cl: "classify c s1 = Inr s2"
    and s': "s' = bind_context c s2"
    unfolding initialize_after_owner_check [OF own]
    by (auto split: sum.splits if_splits)
  from build_tables_inverse_masses [OF bt m i] have i1: "inverse_masses_nonneg s1" .
  from build_tables_cover [OF part bt]
  have "getNumParticles (system c) \<le> length (particleResId s1)"
    by (simp add: tables_cover_def)
  from classify_same_roles [OF cl this] have "residueInvMasses s2 = residueInvMasses s1"
    by (simp add: same_roles_def)
  with i1 show ?thesis by (simp add: s' bind_context_def inverse_masses_nonneg_def Let_def)
qed

lemma inverse_masses_nonneg_new:
  "inverse_masses_nonneg (VVIntegrator_new t f dt df h nch loops com)"
  by (simp add: inverse_masses_nonneg_def VVIntegrator_new_def)

end
